theory Spec2Isabelle
  imports Complex_Main "HOL-Library.Multiset"
begin

section \<open>Numeric primitives of the host language\<close>

text \<open>
  All numbers of the program are IEEE doubles. The geometry is modelled over the reals,
  so its statements are about exact arithmetic; for the angle normalisation the rounding
  of the doubles is modelled as well (\<open>fl64\<close>, \<open>normalizeAngle_double\<close>). \<open>Math.random\<close> is an input: the
  sequence of its results is a function \<open>nat \<Rightarrow> real\<close> and the state carries the
  index of the next unread element.
\<close>

definition js_trunc :: "real \<Rightarrow> int" where
  "js_trunc r = (if 0 \<le> r then \<lfloor>r\<rfloor> else \<lceil>r\<rceil>)"

definition js_rem :: "real \<Rightarrow> real \<Rightarrow> real" where
  \<comment> \<open>The \<open>%\<close> operator: the remainder has the sign of the dividend.\<close>
  "js_rem a n = a - n * of_int (js_trunc (a / n))"

definition atan2 :: "real \<Rightarrow> real \<Rightarrow> real" where
  \<comment> \<open>\<open>Math.atan2(y, x)\<close>, the angle of the point \<open>(x, y)\<close> in \<open>(-pi, pi]\<close>.\<close>
  "atan2 b a =
     (if 0 < a then arctan (b / a)
      else if a < 0 then (if 0 \<le> b then arctan (b / a) + pi else arctan (b / a) - pi)
      else if 0 < b then pi / 2
      else if b < 0 then - (pi / 2)
      else 0)"

section \<open>Configuration\<close>

definition BOUNDARY_RADIUS :: real where "BOUNDARY_RADIUS = 160"
definition INITIAL_RADIUS :: real where "INITIAL_RADIUS = 95"
definition FLAG_RADIUS :: real where "FLAG_RADIUS = 12"
definition BASE_SPEED :: real where "BASE_SPEED = 2"
definition ROTATION_SPEED :: real where "ROTATION_SPEED = 8 / 10"
definition FORMATION_SPIN_SPEED :: real where "FORMATION_SPIN_SPEED = 5 / 1000"
definition GAP_TOLERANCE :: real where "GAP_TOLERANCE = 4"

section \<open>Geometry helpers\<close>

text \<open>\<open>normalizeAngle\<close> read in exact arithmetic, as the geometric properties below are.\<close>

definition normalizeAngle :: "real \<Rightarrow> real" where
  "normalizeAngle ang = (let a = js_rem ang 360 in if a < 0 then a + 360 else a)"

text \<open>
  Rounding to the nearest double, ties to even, for magnitudes in the normal range (no
  overflow, no subnormal results): the value is scaled by the unit in the last place of
  its binade, rounded to an integer and scaled back.
\<close>

definition round_half_even :: "real \<Rightarrow> int" where
  "round_half_even r =
     (let f = \<lfloor>r\<rfloor>; d = r - of_int f
      in if d < 1 / 2 then f else if 1 / 2 < d then f + 1 else if even f then f else f + 1)"

definition fl64 :: "real \<Rightarrow> real" where
  "fl64 v =
     (if v = 0 then 0
      else let e = \<lfloor>log 2 \<bar>v\<bar>\<rfloor>; u = 2 powr (of_int e - 52)
           in u * of_int (round_half_even (v / u)))"

text \<open>
  \<open>normalizeAngle\<close> as the doubles compute it. For an argument that is a double the
  remainder \<open>angle % 360\<close> is exact and so is the comparison with 0; the one operation
  that rounds is \<open>a += 360\<close>.
\<close>

definition normalizeAngle_double :: "real \<Rightarrow> real" where
  "normalizeAngle_double ang =
     (let a = js_rem ang 360 in if a < 0 then fl64 (a + 360) else a)"

section \<open>Data model\<close>

datatype FlagStatus = active | exiting | eliminated | winner

record PhysicsState =
  x :: real
  y :: real
  vx :: real
  vy :: real
  angle :: real
  vAngle :: real

record Country =
  code :: string
  name :: string

record CountryFlag = Country +
  status :: FlagStatus
  physics :: PhysicsState

record LeaderboardEntry = Country +
  wins :: int

datatype Phase = formation | scatter

text \<open>The object behind \<open>physicsRef.current\<close>.\<close>

record PhysicsRef =
  flags :: "CountryFlag list"
  ringAngle :: real
  isRunning :: bool
  phase :: Phase
  gapStart :: real
  gapEnd :: real

section \<open>The boundary event of the scatter phase\<close>

text \<open>
  The live gap interval and the membership test, as the frame callback computes them
  from the local gap bounds \<open>gapS\<close>, \<open>gapE\<close> and the ring angle \<open>ringAng\<close>.
\<close>

definition currentGapStart :: "real \<Rightarrow> real \<Rightarrow> real" where
  "currentGapStart gapS ringAng = normalizeAngle (gapS + ringAng - GAP_TOLERANCE)"

definition currentGapEnd :: "real \<Rightarrow> real \<Rightarrow> real" where
  "currentGapEnd gapE ringAng = normalizeAngle (gapE + ringAng + GAP_TOLERANCE)"

definition isInsideGap :: "real \<Rightarrow> real \<Rightarrow> real \<Rightarrow> real \<Rightarrow> bool" where
  "isInsideGap flagAngle gapS gapE ringAng =
     (if currentGapStart gapS ringAng < currentGapEnd gapE ringAng
      then currentGapStart gapS ringAng \<le> flagAngle \<and> flagAngle \<le> currentGapEnd gapE ringAng
      else currentGapStart gapS ringAng \<le> flagAngle \<or> flagAngle \<le> currentGapEnd gapE ringAng)"

definition dist_of :: "PhysicsState \<Rightarrow> real" where
  \<comment> \<open>\<open>Math.sqrt(p.x * p.x + p.y * p.y)\<close>\<close>
  "dist_of p = sqrt (x p * x p + y p * y p)"

definition flagAngle_of :: "PhysicsState \<Rightarrow> real" where
  "flagAngle_of p = normalizeAngle (atan2 (y p) (x p) * (180 / pi))"

text \<open>
  The branch ``Eliminate'': the status becomes exiting, the velocity is boosted and the
  spin is drawn from two results \<open>r1\<close>, \<open>r2\<close> of \<open>Math.random\<close>.
\<close>

definition eliminate :: "real \<Rightarrow> real \<Rightarrow> CountryFlag \<Rightarrow> CountryFlag" where
  "eliminate r1 r2 flag =
     (let p = physics flag
      in flag\<lparr>status := exiting,
              physics := p\<lparr>vx := vx p * (16 / 10), vy := vy p * (16 / 10),
                           vAngle := (if r1 > 1 / 2 then 12 else - 12) + r2 * 8\<rparr>\<rparr>)"

text \<open>
  The branch ``Bounce'', in the order of the source: the velocity is reflected across the
  unit normal, the position is pushed back by the overlap, and the velocity is perturbed
  with two results \<open>r1\<close>, \<open>r2\<close> of \<open>Math.random\<close>.
\<close>

definition reflect :: "PhysicsState \<Rightarrow> PhysicsState" where
  "reflect p =
     (let dist = dist_of p;
          nx = x p / dist;
          ny = y p / dist;
          dotProduct = vx p * nx + vy p * ny
      in p\<lparr>vx := vx p - 2 * dotProduct * nx, vy := vy p - 2 * dotProduct * ny\<rparr>)"

definition pushBack :: "real \<Rightarrow> real \<Rightarrow> real \<Rightarrow> PhysicsState \<Rightarrow> PhysicsState" where
  \<comment> \<open>\<open>d\<close> (the source's \<open>dist\<close>), \<open>nx\<close>, \<open>ny\<close> are the values computed before the reflection.\<close>
  "pushBack d nx ny p =
     (let overlap = (d + FLAG_RADIUS) - BOUNDARY_RADIUS
      in p\<lparr>x := x p - nx * overlap, y := y p - ny * overlap\<rparr>)"

definition perturb :: "real \<Rightarrow> real \<Rightarrow> PhysicsState \<Rightarrow> PhysicsState" where
  "perturb r1 r2 p = p\<lparr>vx := vx p + (r1 - 1 / 2) * (1 / 2), vy := vy p + (r2 - 1 / 2) * (1 / 2)\<rparr>"

definition bounce :: "real \<Rightarrow> real \<Rightarrow> PhysicsState \<Rightarrow> PhysicsState" where
  "bounce r1 r2 p =
     (let dist = dist_of p;
          nx = x p / dist;
          ny = y p / dist
      in perturb r1 r2 (pushBack dist nx ny (reflect p)))"

section \<open>The per-participant update of a frame\<close>

text \<open>
  The variables the frame callback threads through its \<open>forEach\<close>: the running count of
  active participants, the candidate survivor, and the index of the next result of
  \<open>Math.random\<close>. \<open>potentialWinner\<close> is a reference to a flag object in the source; the
  model keeps the value that object has once it has been visited, which is what every
  later read sees.
\<close>

record LoopVars =
  activeCount :: nat
  potentialWinner :: "CountryFlag option"
  rpos :: nat

text \<open>The formation branch: the position is rotated about the centre by the spin angle.\<close>

definition formationStep :: "CountryFlag \<Rightarrow> CountryFlag" where
  "formationStep flag =
     (let p = physics flag;
          c = cos FORMATION_SPIN_SPEED;
          s = sin FORMATION_SPIN_SPEED;
          nx = x p * c - y p * s;
          ny = x p * s + y p * c
      in flag\<lparr>physics := p\<lparr>x := nx, y := ny\<rparr>\<rparr>)"

text \<open>The Euler step of the scatter phase.\<close>

definition integrate :: "PhysicsState \<Rightarrow> PhysicsState" where
  "integrate p = p\<lparr>x := x p + vx p, y := y p + vy p, angle := angle p + vAngle p\<rparr>"

text \<open>
  The scatter branch for one participant. \<open>cnt\<close> is the value of \<open>activeCount\<close> after this
  participant has been counted, \<open>pos\<close> the index of the next random result. The second
  component is the number of random results the branch has read.
\<close>

definition scatterStep ::
  "(nat \<Rightarrow> real) \<Rightarrow> PhysicsRef \<Rightarrow> nat \<Rightarrow> nat \<Rightarrow> CountryFlag \<Rightarrow> CountryFlag \<times> nat" where
  "scatterStep rnd ref cnt pos flag =
     (let p1 = integrate (physics flag);
          flag1 = flag\<lparr>physics := p1\<rparr>
      in if status flag = active then
           (if dist_of p1 + FLAG_RADIUS \<ge> BOUNDARY_RADIUS then
              (if isInsideGap (flagAngle_of p1) (gapStart ref) (gapEnd ref) (ringAngle ref) \<and> cnt > 1
               then (eliminate (rnd pos) (rnd (pos + 1)) flag1, 2)
               else (flag1\<lparr>physics := bounce (rnd pos) (rnd (pos + 1)) p1\<rparr>, 2))
            else (flag1, 0))
         else if status flag = exiting then
           (if dist_of p1 > BOUNDARY_RADIUS * (25 / 10)
            then (flag1\<lparr>status := eliminated\<rparr>, 0)
            else (flag1, 0))
         else (flag1, 0))"

text \<open>
  The body of the callback given to \<open>forEach\<close>, for one participant: an eliminated one is
  skipped; otherwise it is counted if active, remembered as candidate survivor if active,
  and moved by the branch of the current phase.
\<close>

definition visit ::
  "(nat \<Rightarrow> real) \<Rightarrow> PhysicsRef \<Rightarrow> CountryFlag \<Rightarrow> LoopVars \<Rightarrow> CountryFlag \<times> LoopVars" where
  "visit rnd ref flag lv =
     (if status flag = eliminated then (flag, lv)
      else
        let cnt = (if status flag = active then activeCount lv + 1 else activeCount lv);
            (flag', k) = (if phase ref = formation then (formationStep flag, 0)
                          else scatterStep rnd ref cnt (rpos lv) flag)
        in (flag', \<lparr>activeCount = cnt,
                    potentialWinner = (if status flag = active then Some flag' else potentialWinner lv),
                    rpos = rpos lv + k\<rparr>))"

text \<open>\<open>physicsRef.current.flags.forEach\<close>: the participants are visited in array order.\<close>

fun forEachFlag ::
  "(nat \<Rightarrow> real) \<Rightarrow> PhysicsRef \<Rightarrow> CountryFlag list \<Rightarrow> LoopVars \<Rightarrow> CountryFlag list \<times> LoopVars" where
  "forEachFlag rnd ref [] lv = ([], lv)"
| "forEachFlag rnd ref (flag # rest) lv =
     (let (flag', lv') = visit rnd ref flag lv;
          (rest', lv'') = forEachFlag rnd ref rest lv'
      in (flag' # rest', lv''))"

section \<open>Leaderboard\<close>

text \<open>
  \<open>Array.prototype.sort\<close> is stable; with the comparator \<open>b.wins - a.wins\<close> it orders by
  descending wins and keeps equal entries in their order, which is \<open>sort_key\<close> on the
  negated count.
\<close>

definition updateLeaderboard :: "CountryFlag \<Rightarrow> LeaderboardEntry list \<Rightarrow> LeaderboardEntry list" where
  "updateLeaderboard w prev =
     (let existing = find (\<lambda>p. code p = code w) prev;
          newState = (case existing of
                        Some _ \<Rightarrow> map (\<lambda>p. if code p = code w then p\<lparr>wins := wins p + 1\<rparr> else p) prev
                      | None \<Rightarrow> prev @ [\<lparr>code = code w, name = name w, wins = 1\<rparr>])
      in sort_key (\<lambda>e. - wins e) newState)"

section \<open>Component state, timers and the round lifecycle\<close>

text \<open>
  The host's timer queue is part of the state: \<open>setTimeout\<close> appends a pending timer with a
  fresh positive handle, \<open>clearTimeout\<close> removes the timer with the given handle. The two
  callbacks the component registers are the phase switch and the automatic restart.
  The component's React state (\<open>flags\<close>, \<open>winner\<close>, \<open>visualPathLength\<close>, \<open>leaderboard\<close>) holds the
  values last passed to its setters, as a render sees them. The array given to \<open>setFlags\<close>
  by \<open>initializeGame\<close> is the one \<open>physicsRef\<close> keeps, so the frames change its objects in
  place; \<open>flags_state\<close> is the list as it was when it was set, and the current statuses of
  those objects are the ones of \<open>flags (physicsRef g)\<close>. The MotionValues are rendering outputs that no
  branch reads; they are left out.
\<close>

datatype Callback = StartScatter | AutoRestart

record Timer =
  tid :: nat
  due :: nat
  callback :: Callback

record Game =
  physicsRef :: PhysicsRef
  flags_state :: "CountryFlag list"
  winner_state :: "CountryFlag option"
  visualPathLength :: real
  leaderboard :: "LeaderboardEntry list"
  startTimeoutRef :: "nat option"
  timers :: "Timer list"
  nextTimerId :: nat
  now :: nat
  rngPos :: nat

definition setTimeout :: "Callback \<Rightarrow> nat \<Rightarrow> Game \<Rightarrow> Game \<times> nat" where
  "setTimeout cb delay g =
     (g\<lparr>timers := timers g @ [\<lparr>tid = nextTimerId g, due = now g + delay, callback = cb\<rparr>],
        nextTimerId := nextTimerId g + 1\<rparr>,
      nextTimerId g)"

definition clearTimeout :: "nat \<Rightarrow> Game \<Rightarrow> Game" where
  "clearTimeout i g = g\<lparr>timers := filter (\<lambda>t. tid t \<noteq> i) (timers g)\<rparr>"

definition initialGame :: Game where
  "initialGame =
     \<lparr>physicsRef = \<lparr>flags = [], ringAngle = 0, isRunning = True, phase = formation,
                     gapStart = 306, gapEnd = 360\<rparr>,
      flags_state = [], winner_state = None, visualPathLength = 85 / 100, leaderboard = [],
      startTimeoutRef = None, timers = [], nextTimerId = 1, now = 0, rngPos = 0\<rparr>"

definition countriesList :: "Country list" where
  "countriesList =
    [\<lparr>code = ''us'', name = ''USA''\<rparr>,
     \<lparr>code = ''gb'', name = ''UK''\<rparr>,
     \<lparr>code = ''jp'', name = ''Japan''\<rparr>,
     \<lparr>code = ''de'', name = ''Germany''\<rparr>,
     \<lparr>code = ''fr'', name = ''France''\<rparr>,
     \<lparr>code = ''ca'', name = ''Canada''\<rparr>,
     \<lparr>code = ''au'', name = ''Australia''\<rparr>,
     \<lparr>code = ''it'', name = ''Italy''\<rparr>,
     \<lparr>code = ''es'', name = ''Spain''\<rparr>,
     \<lparr>code = ''nl'', name = ''Netherlands''\<rparr>,
     \<lparr>code = ''se'', name = ''Sweden''\<rparr>,
     \<lparr>code = ''ch'', name = ''Switzerland''\<rparr>,
     \<lparr>code = ''kr'', name = ''South Korea''\<rparr>,
     \<lparr>code = ''sg'', name = ''Singapore''\<rparr>,
     \<lparr>code = ''br'', name = ''Brazil''\<rparr>,
     \<lparr>code = ''in'', name = ''India''\<rparr>,
     \<lparr>code = ''cn'', name = ''China''\<rparr>,
     \<lparr>code = ''ru'', name = ''Russia''\<rparr>,
     \<lparr>code = ''mx'', name = ''Mexico''\<rparr>,
     \<lparr>code = ''za'', name = ''South Africa''\<rparr>,
     \<lparr>code = ''tr'', name = ''Turkey''\<rparr>,
     \<lparr>code = ''id'', name = ''Indonesia''\<rparr>,
     \<lparr>code = ''sa'', name = ''Saudi Arabia''\<rparr>,
     \<lparr>code = ''ar'', name = ''Argentina''\<rparr>,
     \<lparr>code = ''pl'', name = ''Poland''\<rparr>,
     \<lparr>code = ''be'', name = ''Belgium''\<rparr>,
     \<lparr>code = ''no'', name = ''Norway''\<rparr>,
     \<lparr>code = ''dk'', name = ''Denmark''\<rparr>,
     \<lparr>code = ''fi'', name = ''Finland''\<rparr>,
     \<lparr>code = ''nz'', name = ''New Zealand''\<rparr>,
     \<lparr>code = ''pt'', name = ''Portugal''\<rparr>,
     \<lparr>code = ''gr'', name = ''Greece''\<rparr>,
     \<lparr>code = ''ie'', name = ''Ireland''\<rparr>,
     \<lparr>code = ''at'', name = ''Austria''\<rparr>,
     \<lparr>code = ''cz'', name = ''Czechia''\<rparr>,
     \<lparr>code = ''hu'', name = ''Hungary''\<rparr>,
     \<lparr>code = ''ro'', name = ''Romania''\<rparr>,
     \<lparr>code = ''ua'', name = ''Ukraine''\<rparr>,
     \<lparr>code = ''cl'', name = ''Chile''\<rparr>,
     \<lparr>code = ''co'', name = ''Colombia''\<rparr>,
     \<lparr>code = ''pe'', name = ''Peru''\<rparr>,
     \<lparr>code = ''ve'', name = ''Venezuela''\<rparr>,
     \<lparr>code = ''eg'', name = ''Egypt''\<rparr>,
     \<lparr>code = ''ng'', name = ''Nigeria''\<rparr>,
     \<lparr>code = ''ke'', name = ''Kenya''\<rparr>,
     \<lparr>code = ''th'', name = ''Thailand''\<rparr>,
     \<lparr>code = ''vn'', name = ''Vietnam''\<rparr>,
     \<lparr>code = ''my'', name = ''Malaysia''\<rparr>,
     \<lparr>code = ''ph'', name = ''Philippines''\<rparr>,
     \<lparr>code = ''pk'', name = ''Pakistan''\<rparr>]"

text \<open>
  The flag built for the entry \<open>c\<close> at index \<open>i\<close> of a shuffled roster of \<open>n\<close> entries
  (the source's \<open>total\<close>);
  \<open>r1\<close> and \<open>r2\<close> are the two random results read for it.
\<close>

definition initialFlag :: "nat \<Rightarrow> nat \<Rightarrow> real \<Rightarrow> real \<Rightarrow> Country \<Rightarrow> CountryFlag" where
  "initialFlag n i r1 r2 c =
     (let theta = (real i / real n) * 2 * pi;
          velocityAngle = r1 * pi * 2
      in \<lparr>code = code c, name = name c, status = active,
          physics = \<lparr>x = INITIAL_RADIUS * cos theta, y = INITIAL_RADIUS * sin theta,
                     vx = cos velocityAngle * BASE_SPEED, vy = sin velocityAngle * BASE_SPEED,
                     angle = 0, vAngle = (r2 - 1 / 2) * 10\<rparr>\<rparr>)"

text \<open>
  The \<open>map\<close> over the shuffled roster. Each entry reads two random results, in array
  order, starting at index \<open>pos\<close>.
\<close>

definition initialFlags :: "(nat \<Rightarrow> real) \<Rightarrow> nat \<Rightarrow> Country list \<Rightarrow> CountryFlag list" where
  "initialFlags rnd pos shuffledList =
     map (\<lambda>i. initialFlag (length shuffledList) i (rnd (pos + 2 * i)) (rnd (pos + 2 * i + 1))
                 (shuffledList ! i))
       [0 ..< length shuffledList]"

text \<open>
  \<open>initializeGame\<close>. The result of sorting the roster with a random comparator is the input
  \<open>shuffledList\<close>; the random results of the comparator are not counted in \<open>rngPos\<close>.
\<close>

definition initializeGame :: "(nat \<Rightarrow> real) \<Rightarrow> Country list \<Rightarrow> Game \<Rightarrow> Game" where
  "initializeGame rnd shuffledList g =
     (let g1 = (case startTimeoutRef g of
                  Some i \<Rightarrow> if i \<noteq> 0 then clearTimeout i g else g
                | None \<Rightarrow> g);
          gapDegrees = 45;
          pathLen = (360 - gapDegrees) / 360;
          fs = initialFlags rnd (rngPos g1) shuffledList;
          g2 = g1\<lparr>winner_state := None,
                  visualPathLength := pathLen,
                  flags_state := fs,
                  physicsRef := (physicsRef g1)\<lparr>isRunning := True, phase := formation, ringAngle := 0,
                                               gapStart := 360 - gapDegrees, gapEnd := 360,
                                               flags := fs\<rparr>,
                  rngPos := rngPos g1 + 2 * length shuffledList\<rparr>;
          (g3, h) = setTimeout StartScatter 2000 g2
      in g3\<lparr>startTimeoutRef := Some h\<rparr>)"

text \<open>The body of the winner check, run with the survivor \<open>w\<close>.\<close>

definition onSingleSurvivor :: "CountryFlag \<Rightarrow> Game \<Rightarrow> Game" where
  "onSingleSurvivor w g =
     (let g1 = g\<lparr>physicsRef := (physicsRef g)\<lparr>isRunning := False\<rparr>,
                 winner_state := Some w,
                 leaderboard := updateLeaderboard w (leaderboard g)\<rparr>;
          finalFlags = map (\<lambda>f. if code f = code w then f\<lparr>status := winner\<rparr> else f)
                         (flags (physicsRef g1));
          g2 = g1\<lparr>flags_state := finalFlags\<rparr>
      in fst (setTimeout AutoRestart 5000 g2))"

text \<open>
  The state after the ring advance and the pass over the participants, and the loop
  variables the pass leaves.
\<close>

definition framePass :: "(nat \<Rightarrow> real) \<Rightarrow> Game \<Rightarrow> Game \<times> LoopVars" where
  "framePass rnd g =
     (let ref = physicsRef g;
          ref1 = ref\<lparr>ringAngle := js_rem (ringAngle ref + ROTATION_SPEED) 360\<rparr>;
          (fs, lv) = forEachFlag rnd ref1 (flags ref1)
                       \<lparr>activeCount = 0, potentialWinner = None, rpos = rngPos g\<rparr>
      in (g\<lparr>physicsRef := ref1\<lparr>flags := fs\<rparr>, rngPos := rpos lv\<rparr>, lv))"

definition winnerCheck :: "Game \<Rightarrow> LoopVars \<Rightarrow> bool" where
  "winnerCheck g lv \<longleftrightarrow>
     phase (physicsRef g) = scatter \<and> activeCount lv = 1 \<and> potentialWinner lv \<noteq> None \<and>
     isRunning (physicsRef g)"

text \<open>The callback given to \<open>useAnimationFrame\<close>.\<close>

definition frame :: "(nat \<Rightarrow> real) \<Rightarrow> Game \<Rightarrow> Game" where
  "frame rnd g =
     (if \<not> isRunning (physicsRef g) \<or> flags (physicsRef g) = [] then g
      else
        let (g1, lv) = framePass rnd g
        in if winnerCheck g1 lv
           then (case potentialWinner lv of Some w \<Rightarrow> onSingleSurvivor w g1 | None \<Rightarrow> g1)
           else g1)"

text \<open>Whether the frame callback run on \<open>g\<close> enters the winner check's body.\<close>

definition handlerFires :: "(nat \<Rightarrow> real) \<Rightarrow> Game \<Rightarrow> bool" where
  "handlerFires rnd g \<longleftrightarrow>
     isRunning (physicsRef g) \<and> flags (physicsRef g) \<noteq> [] \<and>
     winnerCheck (fst (framePass rnd g)) (snd (framePass rnd g))"

text \<open>
  A pending timer whose time has come fires: it leaves the queue and its callback runs.
  A handle that is not pending, or not yet due, does nothing.
\<close>

definition runCallback :: "(nat \<Rightarrow> real) \<Rightarrow> Country list \<Rightarrow> Callback \<Rightarrow> Game \<Rightarrow> Game" where
  "runCallback rnd shuffledList cb g =
     (case cb of
        StartScatter \<Rightarrow> g\<lparr>physicsRef := (physicsRef g)\<lparr>phase := scatter\<rparr>\<rparr>
      | AutoRestart \<Rightarrow> initializeGame rnd shuffledList g)"

definition fireTimer :: "(nat \<Rightarrow> real) \<Rightarrow> Country list \<Rightarrow> nat \<Rightarrow> Game \<Rightarrow> Game" where
  "fireTimer rnd shuffledList i g =
     (case find (\<lambda>t. tid t = i \<and> due t \<le> now g) (timers g) of
        None \<Rightarrow> g
      | Some t \<Rightarrow> runCallback rnd shuffledList (callback t) (clearTimeout i g))"

definition elapse :: "nat \<Rightarrow> Game \<Rightarrow> Game" where
  "elapse dt g = g\<lparr>now := now g + dt\<rparr>"

text \<open>
  What can happen to the mounted component: a display frame, time passing, a due timer
  firing (with the shuffle its restart would produce), and a call of \<open>initializeGame\<close>
  (the mount effect).
\<close>

datatype Event = Frame | Elapse nat | Fire nat "Country list" | Init "Country list"

fun step :: "(nat \<Rightarrow> real) \<Rightarrow> Event \<Rightarrow> Game \<Rightarrow> Game" where
  "step rnd Frame g = frame rnd g"
| "step rnd (Elapse dt) g = elapse dt g"
| "step rnd (Fire i sh) g = fireTimer rnd sh i g"
| "step rnd (Init sh) g = initializeGame rnd sh g"

fun run :: "(nat \<Rightarrow> real) \<Rightarrow> Event list \<Rightarrow> Game \<Rightarrow> Game" where
  "run rnd [] g = g"
| "run rnd (e # es) g = run rnd es (step rnd e g)"

text \<open>Whether the event \<open>e\<close>, happening in \<open>g\<close>, calls \<open>initializeGame\<close> and so starts a round.\<close>

definition startsRound :: "Game \<Rightarrow> Event \<Rightarrow> bool" where
  "startsRound g e =
     (case e of
        Init sh \<Rightarrow> True
      | Fire i sh \<Rightarrow>
          (case find (\<lambda>t. tid t = i \<and> due t \<le> now g) (timers g) of
             None \<Rightarrow> False
           | Some t \<Rightarrow> callback t = AutoRestart)
      | _ \<Rightarrow> False)"

text \<open>
  The number of times the winner check's body runs along a sequence of events, counted
  up to the next start of a round.
\<close>

fun winsInRound :: "(nat \<Rightarrow> real) \<Rightarrow> Game \<Rightarrow> Event list \<Rightarrow> nat" where
  "winsInRound rnd g [] = 0"
| "winsInRound rnd g (e # es) =
     (if startsRound g e then 0
      else (if e = Frame \<and> handlerFires rnd g then 1 else 0) + winsInRound rnd (step rnd e g) es)"

section \<open>Notions used to state the properties\<close>

definition countActive :: "CountryFlag list \<Rightarrow> nat" where
  "countActive fs = length (filter (\<lambda>f. status f = active) fs)"

definition countWinner :: "CountryFlag list \<Rightarrow> nat" where
  "countWinner fs = length (filter (\<lambda>f. status f = winner) fs)"

text \<open>The moves of a participant's status that count as forward (staying put included).\<close>

fun statusForward :: "FlagStatus \<Rightarrow> FlagStatus \<Rightarrow> bool" where
  "statusForward active b = (b = active \<or> b = exiting)"
| "statusForward exiting b = (b = exiting \<or> b = eliminated)"
| "statusForward eliminated b = (b = eliminated)"
| "statusForward winner b = (b = winner)"

text \<open>
  The sort with a random comparator returns some arrangement of the roster; an event is
  valid when the shuffle it carries is one.
\<close>

definition rosterShuffle :: "Country list \<Rightarrow> bool" where
  "rosterShuffle sh \<longleftrightarrow> mset sh = mset countriesList"

fun validEvent :: "Event \<Rightarrow> bool" where
  "validEvent (Fire i sh) = rosterShuffle sh"
| "validEvent (Init sh) = rosterShuffle sh"
| "validEvent e = True"

text \<open>The map the winner check applies to the simulation's flags to get the displayed ones.\<close>

definition markWinner :: "CountryFlag \<Rightarrow> CountryFlag \<Rightarrow> CountryFlag" where
  "markWinner w f = (if code f = code w then f\<lparr>status := winner\<rparr> else f)"

text \<open>
  What holds of every state the component reaches once a round has been started: the
  participants have different codes, none of them carries the status winner, at most one
  displayed flag does, and a displayed winner means that the game is stopped.
\<close>

definition roundInv :: "Game \<Rightarrow> bool" where
  "roundInv g \<longleftrightarrow>
     distinct (map code (flags (physicsRef g))) \<and>
     countWinner (flags (physicsRef g)) = 0 \<and>
     countWinner (flags_state g) \<le> 1 \<and>
     (0 < countWinner (flags_state g) \<longrightarrow> \<not> isRunning (physicsRef g))"

text \<open>The restart timers in the queue, and the events that are a call of \<open>initializeGame\<close> from outside.\<close>

definition pendingRestarts :: "Game \<Rightarrow> Timer list" where
  "pendingRestarts g = filter (\<lambda>t. callback t = AutoRestart) (timers g)"

fun isInit :: "Event \<Rightarrow> bool" where
  "isInit (Init sh) = True"
| "isInit e = False"

text \<open>
  What holds of the restart timer in the component's own flow: none is pending while the
  game runs, and never more than one is.
\<close>

definition restartInv :: "Game \<Rightarrow> bool" where
  "restartInv g \<longleftrightarrow>
     (isRunning (physicsRef g) \<longrightarrow> pendingRestarts g = []) \<and> length (pendingRestarts g) \<le> 1"

section \<open>Concrete inputs\<close>

text \<open>A participant on the circle of radius 148, moving outwards.\<close>

definition P0 :: PhysicsState where
  "P0 = \<lparr>x = 148, y = 0, vx = 2, vy = 1, angle = 0, vAngle = 0\<rparr>"

text \<open>A random source whose every result is one half.\<close>

definition rndHalf :: "nat \<Rightarrow> real" where
  "rndHalf i = 1 / 2"

text \<open>
  Two participants: \<open>flagA\<close> near the centre, \<open>flagB\<close> one step from crossing the boundary
  at angle 0, where the gap is while the ring angle is small. \<open>flagB_exiting\<close> is \<open>flagB\<close>
  after its elimination, \<open>flagB_bounced\<close> is \<open>flagB\<close> after a bounce.
\<close>

definition flagA :: CountryFlag where
  "flagA = \<lparr>code = ''us'', name = ''USA'', status = active,
            physics = \<lparr>x = 0, y = 0, vx = 1, vy = 0, angle = 0, vAngle = 0\<rparr>\<rparr>"

definition flagB :: CountryFlag where
  "flagB = \<lparr>code = ''gb'', name = ''UK'', status = active,
            physics = \<lparr>x = 147, y = 0, vx = 2, vy = 0, angle = 0, vAngle = 0\<rparr>\<rparr>"

definition flagB_exiting :: CountryFlag where
  "flagB_exiting = \<lparr>code = ''gb'', name = ''UK'', status = exiting,
            physics = \<lparr>x = 149, y = 0, vx = 32 / 10, vy = 0, angle = 0, vAngle = - 8\<rparr>\<rparr>"

definition flagB_bounced :: CountryFlag where
  "flagB_bounced = \<lparr>code = ''gb'', name = ''UK'', status = active,
            physics = \<lparr>x = 148, y = 0, vx = - 2, vy = 0, angle = 0, vAngle = 0\<rparr>\<rparr>"

text \<open>
  A running game in the scatter phase with the given participants, 2000 after its round
  started: the phase timer (handle 1) has fired and the next handle is 2.
\<close>

definition scatterRef :: "CountryFlag list \<Rightarrow> PhysicsRef" where
  "scatterRef fs = \<lparr>flags = fs, ringAngle = 0, isRunning = True, phase = scatter,
                     gapStart = 315, gapEnd = 360\<rparr>"

definition scatterGame :: "CountryFlag list \<Rightarrow> Game" where
  "scatterGame fs = initialGame\<lparr>physicsRef := scatterRef fs, flags_state := fs,
                       startTimeoutRef := Some 1, nextTimerId := 2, now := 2000\<rparr>"

section \<open>Properties of angle normalisation\<close>

lemma js_rem_360_nonneg: "0 \<le> a \<Longrightarrow> js_rem a 360 = a - 360 * of_int \<lfloor>a / 360\<rfloor>"
  by (simp add: js_rem_def js_trunc_def)

lemma js_rem_360_neg: "a < 0 \<Longrightarrow> js_rem a 360 = a - 360 * of_int \<lceil>a / 360\<rceil>"
  by (simp add: js_rem_def js_trunc_def)

lemma normalizeAngle_floor: "normalizeAngle a = a - 360 * of_int \<lfloor>a / 360\<rfloor>"
proof (cases "0 \<le> a")
  case True
  have "0 \<le> a - 360 * of_int \<lfloor>a / 360\<rfloor>"
    using floor_divide_lower [of 360 a] by (simp add: mult.commute)
  with True show ?thesis
    by (simp add: normalizeAngle_def js_rem_360_nonneg Let_def)
next
  case False
  then have neg: "a < 0" by simp
  show ?thesis
  proof (cases "a / 360 \<in> \<int>")
    case True
    then have "of_int \<lceil>a / 360\<rceil> = a / 360" and "of_int \<lfloor>a / 360\<rfloor> = a / 360"
      by (auto elim!: Ints_cases)
    then show ?thesis
      using neg by (simp add: normalizeAngle_def js_rem_360_neg Let_def)
  next
    case False
    then have c: "\<lceil>a / 360\<rceil> = \<lfloor>a / 360\<rfloor> + 1"
      by (simp only: ceiling_altdef of_int_floor_cancel [symmetric] Ints_def image_iff)
        (auto simp: eq_commute)
    have "a - 360 * of_int \<lceil>a / 360\<rceil> \<le> 0"
      using ceiling_divide_upper [of 360 a] by (simp add: mult.commute)
    moreover have "a - 360 * of_int \<lceil>a / 360\<rceil> \<noteq> 0"
    proof
      assume "a - 360 * of_int \<lceil>a / 360\<rceil> = 0"
      then have "a / 360 = of_int \<lceil>a / 360\<rceil>" by simp
      then have "a / 360 \<in> \<int>" by (metis Ints_of_int)
      with False show False by simp
    qed
    ultimately have "a - 360 * of_int \<lceil>a / 360\<rceil> < 0" by simp
    then show ?thesis
      using neg c by (simp add: normalizeAngle_def js_rem_360_neg Let_def algebra_simps)
  qed
qed

lemma normalizeAngle_lower: "0 \<le> normalizeAngle a"
  using floor_divide_lower [of 360 a] by (simp add: normalizeAngle_floor mult.commute)

lemma normalizeAngle_upper: "normalizeAngle a < 360"
  using floor_divide_upper [of 360 a] by (simp add: normalizeAngle_floor algebra_simps)

lemma normalizeAngle_shift: "normalizeAngle (a + 360 * of_int k) = normalizeAngle a"
proof -
  have "(a + 360 * of_int k) / 360 = a / 360 + of_int k" by simp
  then have "\<lfloor>(a + 360 * of_int k) / 360\<rfloor> = \<lfloor>a / 360 + of_int k\<rfloor>" by (simp only:)
  then have "\<lfloor>(a + 360 * of_int k) / 360\<rfloor> = \<lfloor>a / 360\<rfloor> + k" by (simp only: floor_add_int)
  then show ?thesis by (simp add: normalizeAngle_floor algebra_simps)
qed

section \<open>Reflection and position correction\<close>

lemma dist_of_sq: "dist_of p * dist_of p = x p * x p + y p * y p"
proof -
  have "0 \<le> x p * x p + y p * y p" by simp
  then show ?thesis unfolding dist_of_def by (metis real_sqrt_mult_self abs_of_nonneg)
qed

lemma reflect_speed:
  assumes "dist_of p \<noteq> 0"
  shows "vx (reflect p) * vx (reflect p) + vy (reflect p) * vy (reflect p) = vx p * vx p + vy p * vy p"
proof -
  define d where "d = dist_of p"
  have d0: "d \<noteq> 0" using assms by (simp add: d_def)
  have dd: "d * d = x p * x p + y p * y p" by (simp add: d_def dist_of_sq)
  define nx where "nx = x p / d"
  define ny where "ny = y p / d"
  have unit: "nx * nx + ny * ny = 1"
  proof -
    have "nx * nx + ny * ny = (x p * x p + y p * y p) / (d * d)"
      by (simp add: nx_def ny_def add_divide_distrib)
    also have "\<dots> = 1" using d0 by (simp add: dd [symmetric])
    finally show ?thesis .
  qed
  define k where "k = vx p * nx + vy p * ny"
  have vx': "vx (reflect p) = vx p - 2 * k * nx" and vy': "vy (reflect p) = vy p - 2 * k * ny"
    by (simp_all add: reflect_def Let_def d_def nx_def ny_def k_def)
  have "(vx p - 2 * k * nx) * (vx p - 2 * k * nx) + (vy p - 2 * k * ny) * (vy p - 2 * k * ny)
        = vx p * vx p + vy p * vy p - 4 * k * (vx p * nx + vy p * ny) + 4 * k * k * (nx * nx + ny * ny)"
    by (simp add: algebra_simps)
  also have "\<dots> = vx p * vx p + vy p * vy p" by (simp add: unit k_def [symmetric])
  finally show ?thesis by (simp add: vx' vy')
qed

lemma bounce_dist:
  assumes "BOUNDARY_RADIUS \<le> dist_of p + FLAG_RADIUS"
  shows "dist_of (bounce r1 r2 p) = BOUNDARY_RADIUS - FLAG_RADIUS"
proof -
  define d where "d = dist_of p"
  have dpos: "0 < d" using assms by (simp add: d_def BOUNDARY_RADIUS_def FLAG_RADIUS_def)
  have dd: "d * d = x p * x p + y p * y p" by (simp add: d_def dist_of_sq)
  have x': "x (bounce r1 r2 p) = 148 * (x p / d)" and y': "y (bounce r1 r2 p) = 148 * (y p / d)"
    using dpos by (simp_all add: bounce_def perturb_def pushBack_def reflect_def Let_def d_def [symmetric]
      BOUNDARY_RADIUS_def FLAG_RADIUS_def field_simps)
  have "x (bounce r1 r2 p) * x (bounce r1 r2 p) + y (bounce r1 r2 p) * y (bounce r1 r2 p)
        = 148 * 148 * ((x p * x p + y p * y p) / (d * d))"
    by (simp add: x' y' add_divide_distrib)
  also have "\<dots> = 148 * 148" using dpos by (simp add: dd [symmetric])
  finally have "dist_of (bounce r1 r2 p) = sqrt (148 * 148)"
    by (simp add: dist_of_def)
  also have "\<dots> = 148" by (simp add: real_sqrt_abs2)
  finally show ?thesis by (simp add: BOUNDARY_RADIUS_def FLAG_RADIUS_def)
qed

section \<open>The gap membership test\<close>

lemma inside_gap_iff:
  assumes a: "0 \<le> a" "a < 360"
    and w: "0 < gapE - gapS + 2 * GAP_TOLERANCE" "gapE - gapS + 2 * GAP_TOLERANCE < 360"
  shows "isInsideGap a gapS gapE ringAng \<longleftrightarrow>
    (\<exists>k::int. gapS + ringAng - GAP_TOLERANCE \<le> a + 360 * of_int k \<and>
              a + 360 * of_int k \<le> gapE + ringAng + GAP_TOLERANCE)"
proof -
  define s where "s = gapS + ringAng - GAP_TOLERANCE"
  define e where "e = gapE + ringAng + GAP_TOLERANCE"
  define fs where "fs = \<lfloor>s / 360\<rfloor>"
  define fe where "fe = \<lfloor>e / 360\<rfloor>"
  have se: "s < e" "e < s + 360" using w by (simp_all add: s_def e_def)
  have fs1: "360 * of_int fs \<le> s" and fs2: "s < 360 * of_int fs + 360"
    using floor_divide_lower [of 360 s] floor_divide_upper [of 360 s]
    by (simp_all add: fs_def algebra_simps)
  have fe1: "360 * of_int fe \<le> e" and fe2: "e < 360 * of_int fe + 360"
    using floor_divide_lower [of 360 e] floor_divide_upper [of 360 e]
    by (simp_all add: fe_def algebra_simps)
  have cs: "currentGapStart gapS ringAng = s - 360 * of_int fs"
    by (simp add: currentGapStart_def normalizeAngle_floor s_def fs_def)
  have ce: "currentGapEnd gapE ringAng = e - 360 * of_int fe"
    by (simp add: currentGapEnd_def normalizeAngle_floor e_def fe_def)
  have "of_int fs < (of_int fe + 1 :: real)" using fs1 fe2 se by linarith
  then have "fs < fe + 1" by linarith
  moreover have "of_int fe < (of_int fs + 2 :: real)" using fe1 fs2 se by linarith
  then have "fe < fs + 2" by linarith
  ultimately consider (same) "fe = fs" | (succ) "fe = fs + 1" by linarith
  then have "isInsideGap a gapS gapE ringAng \<longleftrightarrow>
    (\<exists>k::int. s \<le> a + 360 * of_int k \<and> a + 360 * of_int k \<le> e)"
  proof cases
    case same
    have bound: "k = fs" if "s \<le> a + 360 * of_int k" "a + 360 * of_int k \<le> e" for k :: int
    proof -
      have "of_int fs < (of_int k + 1 :: real)" using that a fs1 by linarith
      moreover have "of_int k < (of_int fe + 1 :: real)" using that a fe2 by linarith
      ultimately show ?thesis using same by linarith
    qed
    have "isInsideGap a gapS gapE ringAng \<longleftrightarrow> s \<le> a + 360 * of_int fs \<and> a + 360 * of_int fs \<le> e"
      using se same by (auto simp: isInsideGap_def cs ce)
    also have "\<dots> \<longleftrightarrow> (\<exists>k::int. s \<le> a + 360 * of_int k \<and> a + 360 * of_int k \<le> e)"
      using bound by blast
    finally show ?thesis .
  next
    case succ
    have bound: "k = fs \<or> k = fs + 1" if "s \<le> a + 360 * of_int k" "a + 360 * of_int k \<le> e" for k :: int
    proof -
      have "of_int fs < (of_int k + 1 :: real)" using that a fs1 by linarith
      moreover have "of_int k < (of_int fe + 1 :: real)" using that a fe2 by linarith
      ultimately show ?thesis using succ by linarith
    qed
    have fe': "(of_int fe :: real) = of_int fs + 1" using succ by simp
    have "isInsideGap a gapS gapE ringAng \<longleftrightarrow> s \<le> a + 360 * of_int fs \<or> a + 360 * of_int (fs + 1) \<le> e"
      using se by (auto simp: isInsideGap_def cs ce fe')
    also have "\<dots> \<longleftrightarrow> (\<exists>k::int. s \<le> a + 360 * of_int k \<and> a + 360 * of_int k \<le> e)"
    proof
      assume "s \<le> a + 360 * of_int fs \<or> a + 360 * of_int (fs + 1) \<le> e"
      then show "\<exists>k::int. s \<le> a + 360 * of_int k \<and> a + 360 * of_int k \<le> e"
      proof
        assume h: "s \<le> a + 360 * of_int fs"
        have "a + 360 * of_int fs \<le> e" using a fe1 fe' by linarith
        with h show ?thesis by blast
      next
        assume h: "a + 360 * of_int (fs + 1) \<le> e"
        have "s \<le> a + 360 * of_int (fs + 1)" using a fs2 by simp
        with h show ?thesis by blast
      qed
    next
      assume "\<exists>k::int. s \<le> a + 360 * of_int k \<and> a + 360 * of_int k \<le> e"
      then obtain k :: int where k: "s \<le> a + 360 * of_int k" "a + 360 * of_int k \<le> e" by blast
      from bound [OF k] k show "s \<le> a + 360 * of_int fs \<or> a + 360 * of_int (fs + 1) \<le> e" by auto
    qed
    finally show ?thesis .
  qed
  then show ?thesis by (simp add: s_def e_def)
qed

lemma n336: "normalizeAngle 336 = 336"
  by (simp add: normalizeAngle_floor)
lemma n364: "normalizeAngle 364 = 4"
proof -
  have "\<lfloor>364 / 360 :: real\<rfloor> = 1" by (simp add: floor_eq_iff)
  then show ?thesis by (simp add: normalizeAngle_floor)
qed

lemma ex350: "isInsideGap 350 340 360 0" "\<not> isInsideGap 170 340 360 0"
  by (simp_all add: isInsideGap_def currentGapStart_def currentGapEnd_def GAP_TOLERANCE_def n336 n364)

lemma dist_P0: "dist_of P0 = 148"
  by (simp add: dist_of_def P0_def real_sqrt_abs2)

text \<open>
  Claim C4. The live interval is the local gap rotated by the ring angle and widened by
  the tolerance at both ends; the test is the bounded one when the normalised start is
  below the normalised end and the disjunctive one otherwise. For an angle in \<open>[0, 360)\<close>
  (where the participant's normalised angle always lies) and a widened gap shorter than a
  full turn this is membership of the angle, up to full turns, in the unnormalised
  interval, so the test is right across the wraparound. With
  tolerance 4, gap \<open>[340, 360)\<close> and ring angle 0, the angle 350 is inside and 170 is
  outside.
\<close>

theorem live_gap_membership:
  "currentGapStart gapS ringAng = normalizeAngle (gapS + ringAng - GAP_TOLERANCE) \<and>
   currentGapEnd gapE ringAng = normalizeAngle (gapE + ringAng + GAP_TOLERANCE) \<and>
   (isInsideGap a gapS gapE ringAng \<longleftrightarrow>
      (if currentGapStart gapS ringAng < currentGapEnd gapE ringAng
       then currentGapStart gapS ringAng \<le> a \<and> a \<le> currentGapEnd gapE ringAng
       else currentGapStart gapS ringAng \<le> a \<or> a \<le> currentGapEnd gapE ringAng)) \<and>
   (0 \<le> a \<and> a < 360 \<and> 0 < gapE - gapS + 2 * GAP_TOLERANCE \<and> gapE - gapS + 2 * GAP_TOLERANCE < 360 \<longrightarrow>
      (isInsideGap a gapS gapE ringAng \<longleftrightarrow>
         (\<exists>k::int. gapS + ringAng - GAP_TOLERANCE \<le> a + 360 * of_int k \<and>
                   a + 360 * of_int k \<le> gapE + ringAng + GAP_TOLERANCE))) \<and>
   0 \<le> flagAngle_of p \<and> flagAngle_of p < 360 \<and>
   GAP_TOLERANCE = 4 \<and> isInsideGap 350 340 360 0 \<and> \<not> isInsideGap 170 340 360 0"
proof -
  have "0 \<le> a \<and> a < 360 \<and> 0 < gapE - gapS + 2 * GAP_TOLERANCE \<and> gapE - gapS + 2 * GAP_TOLERANCE < 360 \<longrightarrow>
      (isInsideGap a gapS gapE ringAng \<longleftrightarrow>
         (\<exists>k::int. gapS + ringAng - GAP_TOLERANCE \<le> a + 360 * of_int k \<and>
                   a + 360 * of_int k \<le> gapE + ringAng + GAP_TOLERANCE))"
    using inside_gap_iff by blast
  moreover have "isInsideGap a gapS gapE ringAng \<longleftrightarrow>
      (if currentGapStart gapS ringAng < currentGapEnd gapE ringAng
       then currentGapStart gapS ringAng \<le> a \<and> a \<le> currentGapEnd gapE ringAng
       else currentGapStart gapS ringAng \<le> a \<or> a \<le> currentGapEnd gapE ringAng)"
    by (simp only: isInsideGap_def)
  moreover have "0 \<le> flagAngle_of p \<and> flagAngle_of p < 360"
    by (simp add: flagAngle_of_def normalizeAngle_lower normalizeAngle_upper)
  ultimately show ?thesis
    using ex350 by (simp only: currentGapStart_def currentGapEnd_def GAP_TOLERANCE_def simp_thms)
qed

theorem live_gap_membership_witness:
  "isInsideGap 10 315 360 8 \<and>
   (\<exists>k::int. 315 + 8 - GAP_TOLERANCE \<le> 10 + 360 * real_of_int k \<and>
             10 + 360 * real_of_int k \<le> 360 + 8 + GAP_TOLERANCE)"
proof -
  have "\<lfloor>319 / 360 :: real\<rfloor> = 0" "\<lfloor>372 / 360 :: real\<rfloor> = 1" by (simp_all add: floor_eq_iff)
  then have "isInsideGap 10 315 360 8"
    by (simp add: isInsideGap_def currentGapStart_def currentGapEnd_def GAP_TOLERANCE_def
        normalizeAngle_floor)
  moreover have "(0::real) \<le> 10 \<and> (10::real) < 360 \<and> 0 < 360 - 315 + 2 * GAP_TOLERANCE \<and>
      360 - 315 + 2 * GAP_TOLERANCE < 360"
    by (simp add: GAP_TOLERANCE_def)
  ultimately show ?thesis
    using live_gap_membership [of 315 8 360 10] by blast
qed

text \<open>
  Claim C5. At a boundary event the reflected velocity (the value of \<open>vx\<close>, \<open>vy\<close> after
  the reflection and before the random perturbation is added) has the speed of the
  incoming velocity.
\<close>

theorem reflection_preserves_speed:
  "BOUNDARY_RADIUS \<le> dist_of p + FLAG_RADIUS \<Longrightarrow>
   sqrt ((vx (reflect p))\<^sup>2 + (vy (reflect p))\<^sup>2) = sqrt ((vx p)\<^sup>2 + (vy p)\<^sup>2) \<and>
   vx (bounce r1 r2 p) = vx (reflect p) + (r1 - 1 / 2) * (1 / 2) \<and>
   vy (bounce r1 r2 p) = vy (reflect p) + (r2 - 1 / 2) * (1 / 2)"
proof -
  assume h: "BOUNDARY_RADIUS \<le> dist_of p + FLAG_RADIUS"
  then have "dist_of p \<noteq> 0" by (simp add: BOUNDARY_RADIUS_def FLAG_RADIUS_def)
  then have "(vx (reflect p))\<^sup>2 + (vy (reflect p))\<^sup>2 = (vx p)\<^sup>2 + (vy p)\<^sup>2"
    using reflect_speed [of p] by (simp add: power2_eq_square)
  then show ?thesis
    by (simp add: bounce_def perturb_def pushBack_def Let_def)
qed

theorem reflection_preserves_speed_witness:
  "BOUNDARY_RADIUS \<le> dist_of P0 + FLAG_RADIUS \<and>
   sqrt ((vx (reflect P0))\<^sup>2 + (vy (reflect P0))\<^sup>2) = sqrt ((vx P0)\<^sup>2 + (vy P0)\<^sup>2) \<and>
   vx (reflect P0) = - 2 \<and> vy (reflect P0) = 1"
proof -
  have h: "BOUNDARY_RADIUS \<le> dist_of P0 + FLAG_RADIUS"
    by (simp add: dist_P0 BOUNDARY_RADIUS_def FLAG_RADIUS_def)
  have "vx (reflect P0) = - 2 \<and> vy (reflect P0) = 1"
    by (simp add: reflect_def Let_def dist_P0) (simp add: P0_def)
  with h reflection_preserves_speed [OF h] show ?thesis by simp
qed

section \<open>The pass over the participants\<close>

lemma countActive_append: "countActive (xs @ ys) = countActive xs + countActive ys"
  by (simp add: countActive_def)

lemma status_eliminate [simp]: "status (eliminate r1 r2 flag) = exiting"
  and code_eliminate [simp]: "code (eliminate r1 r2 flag) = code flag"
  and name_eliminate [simp]: "name (eliminate r1 r2 flag) = name flag"
  by (simp_all add: eliminate_def Let_def)

lemma formationStep_simps [simp]:
  "status (formationStep flag) = status flag"
  "code (formationStep flag) = code flag"
  "name (formationStep flag) = name flag"
  by (simp_all add: formationStep_def Let_def)

lemma scatterStep_code [simp]: "code (fst (scatterStep rnd ref cnt pos flag)) = code flag"
  and scatterStep_name [simp]: "name (fst (scatterStep rnd ref cnt pos flag)) = name flag"
  by (simp_all add: scatterStep_def Let_def)

lemma scatterStep_forward: "statusForward (status flag) (status (fst (scatterStep rnd ref cnt pos flag)))"
  by (cases "status flag") (simp_all add: scatterStep_def Let_def)

lemma scatterStep_guard:
  "status flag = active \<Longrightarrow> status (fst (scatterStep rnd ref cnt pos flag)) = exiting \<Longrightarrow> 1 < cnt"
  by (simp add: scatterStep_def Let_def split: if_splits)

lemma scatterStep_sole:
  "status flag = active \<Longrightarrow> cnt \<le> 1 \<Longrightarrow> status (fst (scatterStep rnd ref cnt pos flag)) = active"
  by (simp add: scatterStep_def Let_def)

lemma visit_code [simp]: "code (fst (visit rnd ref flag lv)) = code flag"
  and visit_name [simp]: "name (fst (visit rnd ref flag lv)) = name flag"
  by (simp_all add: visit_def Let_def split_beta)

lemma visit_forward: "statusForward (status flag) (status (fst (visit rnd ref flag lv)))"
  using scatterStep_forward [of flag rnd ref]
  by (cases "status flag") (simp_all add: visit_def Let_def split_beta)

lemma visit_activeCount:
  "activeCount (snd (visit rnd ref flag lv)) = activeCount lv + (if status flag = active then 1 else 0)"
  by (simp add: visit_def Let_def split_beta)

lemma visit_guard:
  "status flag = active \<Longrightarrow> status (fst (visit rnd ref flag lv)) = exiting \<Longrightarrow> 0 < activeCount lv"
  using scatterStep_guard [of flag rnd ref "activeCount lv + 1" "rpos lv"]
  by (simp add: visit_def Let_def split_beta split: if_splits)

lemma visit_sole:
  "status flag = active \<Longrightarrow> activeCount lv = 0 \<Longrightarrow> status (fst (visit rnd ref flag lv)) = active"
  using scatterStep_sole [of flag 1 rnd ref "rpos lv"]
  by (simp add: visit_def Let_def split_beta)

lemma forEachFlag_length [simp]: "length (fst (forEachFlag rnd ref fs lv)) = length fs"
  by (induction fs arbitrary: lv) (simp_all add: split_beta Let_def)

lemma forEachFlag_activeCount:
  "activeCount (snd (forEachFlag rnd ref fs lv)) = activeCount lv + countActive fs"
  by (induction fs arbitrary: lv) (simp_all add: split_beta Let_def visit_activeCount countActive_def)

lemma forEachFlag_take:
  "take i (fst (forEachFlag rnd ref fs lv)) = fst (forEachFlag rnd ref (take i fs) lv)"
proof (induction fs arbitrary: lv i)
  case Nil
  then show ?case by simp
next
  case (Cons f fs)
  then show ?case by (cases i) (simp_all add: split_beta Let_def)
qed

lemma forEachFlag_nth:
  "i < length fs \<Longrightarrow>
   fst (forEachFlag rnd ref fs lv) ! i =
     fst (visit rnd ref (fs ! i) (snd (forEachFlag rnd ref (take i fs) lv)))"
proof (induction fs arbitrary: lv i)
  case Nil
  then show ?case by simp
next
  case (Cons f fs)
  then show ?case by (cases i) (simp_all add: split_beta Let_def)
qed

lemma forEachFlag_keeps_active:
  "activeCount lv = 0 \<Longrightarrow> 0 < countActive fs \<Longrightarrow> 0 < countActive (fst (forEachFlag rnd ref fs lv))"
proof (induction fs arbitrary: lv)
  case Nil
  then show ?case by (simp add: countActive_def)
next
  case (Cons f fs)
  show ?case
  proof (cases "status f = active")
    case True
    with Cons.prems have "status (fst (visit rnd ref f lv)) = active" by (simp add: visit_sole)
    then show ?thesis by (simp add: split_beta Let_def countActive_def)
  next
    case False
    with Cons.prems have "activeCount (snd (visit rnd ref f lv)) = 0" "0 < countActive fs"
      by (simp_all add: visit_activeCount countActive_def)
    from Cons.IH [OF this] show ?thesis
      by (simp add: split_beta Let_def countActive_def)
  qed
qed

lemma forEachFlag_forward:
  "list_all2 (\<lambda>f f'. code f' = code f \<and> name f' = name f \<and> statusForward (status f) (status f'))
     fs (fst (forEachFlag rnd ref fs lv))"
  by (induction fs arbitrary: lv) (simp_all add: split_beta Let_def visit_forward)

lemma forEachFlag_exit_guard:
  assumes "activeCount lv = 0" "i < length fs" "status (fs ! i) = active"
    and "status (fst (forEachFlag rnd ref fs lv) ! i) = exiting"
  shows "1 < countActive (take i (fst (forEachFlag rnd ref fs lv)) @ drop i fs)"
proof -
  let ?lvi = "snd (forEachFlag rnd ref (take i fs) lv)"
  have "status (fst (visit rnd ref (fs ! i) ?lvi)) = exiting"
    using assms by (simp add: forEachFlag_nth)
  then have "0 < activeCount ?lvi" using assms(3) by (rule visit_guard [rotated])
  then have "0 < countActive (take i fs)" using assms(1) by (simp add: forEachFlag_activeCount)
  then have "0 < countActive (take i (fst (forEachFlag rnd ref fs lv)))"
    using assms(1) forEachFlag_keeps_active [of lv "take i fs" rnd ref]
    by (simp add: forEachFlag_take)
  moreover have "0 < countActive (drop i fs)"
    using assms(2,3) by (simp add: countActive_def Cons_nth_drop_Suc [symmetric])
  ultimately show ?thesis by (simp add: countActive_append)
qed

section \<open>Frames and events\<close>

lemma countriesList_length: "length countriesList = 50"
  by (simp add: countriesList_def)

lemma countriesList_distinct: "distinct (map code countriesList)"
  by (simp add: countriesList_def)

lemma rosterShuffle_length: "rosterShuffle sh \<Longrightarrow> length sh = 50"
  using mset_eq_length [of sh countriesList] by (simp add: rosterShuffle_def countriesList_length)

lemma rosterShuffle_distinct: "rosterShuffle sh \<Longrightarrow> distinct (map code sh)"
proof -
  assume "rosterShuffle sh"
  then have "mset (map code sh) = mset (map code countriesList)"
    by (simp add: rosterShuffle_def)
  then show ?thesis using countriesList_distinct by (metis mset_eq_imp_distinct_iff)
qed

lemma onSingleSurvivor_physicsRef:
  "physicsRef (onSingleSurvivor w g) = (physicsRef g)\<lparr>isRunning := False\<rparr>"
  by (simp add: onSingleSurvivor_def setTimeout_def Let_def)

lemma framePass_flags:
  "flags (physicsRef (fst (framePass rnd g))) =
     fst (forEachFlag rnd ((physicsRef g)\<lparr>ringAngle := js_rem (ringAngle (physicsRef g) + ROTATION_SPEED) 360\<rparr>)
            (flags (physicsRef g)) \<lparr>activeCount = 0, potentialWinner = None, rpos = rngPos g\<rparr>)"
  by (simp add: framePass_def Let_def split_beta)

lemma framePass_ref [simp]:
  "isRunning (physicsRef (fst (framePass rnd g))) = isRunning (physicsRef g)"
  "phase (physicsRef (fst (framePass rnd g))) = phase (physicsRef g)"
  "gapStart (physicsRef (fst (framePass rnd g))) = gapStart (physicsRef g)"
  "gapEnd (physicsRef (fst (framePass rnd g))) = gapEnd (physicsRef g)"
  by (simp_all add: framePass_def Let_def split_beta)

lemma framePass_activeCount:
  "activeCount (snd (framePass rnd g)) = countActive (flags (physicsRef g))"
  by (simp add: framePass_def Let_def split_beta forEachFlag_activeCount)

lemma frame_flags:
  "flags (physicsRef (frame rnd g)) =
     (if isRunning (physicsRef g) \<and> flags (physicsRef g) \<noteq> []
      then flags (physicsRef (fst (framePass rnd g)))
      else flags (physicsRef g))"
  by (simp add: frame_def Let_def split_beta onSingleSurvivor_physicsRef split: option.splits)

lemma frame_keeps_active:
  "0 < countActive (flags (physicsRef g)) \<Longrightarrow> 0 < countActive (flags (physicsRef (frame rnd g)))"
  using forEachFlag_keeps_active [of "\<lparr>activeCount = 0, potentialWinner = None, rpos = rngPos g\<rparr>"
      "flags (physicsRef g)" rnd]
  by (simp add: frame_flags framePass_flags)

lemma clearTimeout_simps [simp]:
  "physicsRef (clearTimeout i g) = physicsRef g"
  "rngPos (clearTimeout i g) = rngPos g"
  "flags_state (clearTimeout i g) = flags_state g"
  "leaderboard (clearTimeout i g) = leaderboard g"
  "now (clearTimeout i g) = now g"
  "nextTimerId (clearTimeout i g) = nextTimerId g"
  "startTimeoutRef (clearTimeout i g) = startTimeoutRef g"
  "winner_state (clearTimeout i g) = winner_state g"
  by (simp_all add: clearTimeout_def)

lemma initializeGame_physicsRef:
  "physicsRef (initializeGame rnd sh g) =
     (physicsRef g)\<lparr>isRunning := True, phase := formation, ringAngle := 0, gapStart := 315,
                    gapEnd := 360, flags := initialFlags rnd (rngPos g) sh\<rparr>"
  by (simp add: initializeGame_def setTimeout_def Let_def split: option.splits)

lemma initializeGame_flags_state:
  "flags_state (initializeGame rnd sh g) = initialFlags rnd (rngPos g) sh"
  by (simp add: initializeGame_def setTimeout_def Let_def split: option.splits)

lemma initialFlags_length [simp]: "length (initialFlags rnd pos sh) = length sh"
  by (simp add: initialFlags_def)

lemma initialFlags_nth:
  "i < length sh \<Longrightarrow>
   initialFlags rnd pos sh ! i =
     initialFlag (length sh) i (rnd (pos + 2 * i)) (rnd (pos + 2 * i + 1)) (sh ! i)"
  by (simp add: initialFlags_def)

lemma initialFlag_simps [simp]:
  "status (initialFlag n i r1 r2 c) = active"
  "code (initialFlag n i r1 r2 c) = code c"
  "name (initialFlag n i r1 r2 c) = name c"
  by (simp_all add: initialFlag_def Let_def)

lemma initialFlags_active: "f \<in> set (initialFlags rnd pos sh) \<Longrightarrow> status f = active"
  by (auto simp: initialFlags_def)

lemma initialFlags_codes: "map code (initialFlags rnd pos sh) = map code sh"
  by (rule nth_equalityI) (simp_all add: initialFlags_nth)

lemma countActive_initialFlags: "countActive (initialFlags rnd pos sh) = length sh"
proof -
  have "filter (\<lambda>f. status f = active) (initialFlags rnd pos sh) = initialFlags rnd pos sh"
    by (rule filter_True) (simp add: initialFlags_active)
  then show ?thesis by (simp add: countActive_def)
qed

lemma initializeGame_active:
  "rosterShuffle sh \<Longrightarrow> 0 < countActive (flags (physicsRef (initializeGame rnd sh g)))"
  by (simp add: initializeGame_physicsRef countActive_initialFlags rosterShuffle_length)

lemma step_keeps_active:
  assumes "validEvent e" "0 < countActive (flags (physicsRef g))"
  shows "0 < countActive (flags (physicsRef (step rnd e g)))"
proof (cases e)
  case Frame
  with assms show ?thesis by (simp add: frame_keeps_active)
next
  case (Elapse dt)
  with assms show ?thesis by (simp add: elapse_def)
next
  case (Fire i sh)
  with assms have sh: "rosterShuffle sh" by simp
  show ?thesis
  proof (cases "find (\<lambda>t. tid t = i \<and> due t \<le> now g) (timers g)")
    case None
    with Fire assms show ?thesis by (simp add: fireTimer_def)
  next
    case (Some t)
    show ?thesis
    proof (cases "callback t")
      case StartScatter
      with Some Fire assms show ?thesis by (simp add: fireTimer_def runCallback_def)
    next
      case AutoRestart
      with Some Fire show ?thesis
        using initializeGame_active [OF sh] by (simp add: fireTimer_def runCallback_def)
    qed
  qed
next
  case (Init sh)
  with assms show ?thesis by (simp add: initializeGame_active)
qed

lemma run_keeps_active:
  "\<forall>e\<in>set es. validEvent e \<Longrightarrow> 0 < countActive (flags (physicsRef g)) \<Longrightarrow>
   0 < countActive (flags (physicsRef (run rnd es g)))"
  by (induction es arbitrary: g) (simp_all add: step_keeps_active)

section \<open>Evaluation on concrete inputs\<close>

lemma dist_of_axis: "y p = 0 \<Longrightarrow> dist_of p = \<bar>x p\<bar>"
  by (simp add: dist_of_def real_sqrt_abs2)

lemma js_rem_small: "0 \<le> a \<Longrightarrow> a < 360 \<Longrightarrow> js_rem a 360 = a"
  by (simp add: js_rem_def js_trunc_def floor_eq_iff [THEN iffD2])

lemma normalizeAngle_small: "0 \<le> a \<Longrightarrow> a < 360 \<Longrightarrow> normalizeAngle a = a"
  by (simp add: normalizeAngle_def js_rem_small Let_def)

lemma normalizeAngle_next: "360 \<le> a \<Longrightarrow> a < 720 \<Longrightarrow> normalizeAngle a = a - 360"
  using normalizeAngle_shift [of "a - 360" 1] by (simp add: normalizeAngle_small)

lemma flagAngle_axis: "y p = 0 \<Longrightarrow> 0 < x p \<Longrightarrow> flagAngle_of p = 0"
  by (simp add: flagAngle_of_def atan2_def normalizeAngle_small)

lemmas eval_simps = visit_def scatterStep_def integrate_def Let_def dist_of_axis flagAngle_axis
  BOUNDARY_RADIUS_def FLAG_RADIUS_def isInsideGap_def currentGapStart_def currentGapEnd_def
  GAP_TOLERANCE_def ROTATION_SPEED_def normalizeAngle_small normalizeAngle_next eliminate_def rndHalf_def
  scatterRef_def scatterGame_def initialGame_def js_rem_small framePass_def

lemma framePass_two:
  "framePass rndHalf (scatterGame [flagA, flagB]) =
     ((scatterGame [flagA, flagB])
        \<lparr>physicsRef := (scatterRef [flagA\<lparr>physics := (physics flagA)\<lparr>x := 1\<rparr>\<rparr>, flagB_exiting])\<lparr>ringAngle := 8 / 10\<rparr>,
         rngPos := 2\<rparr>,
      \<lparr>activeCount = 2, potentialWinner = Some flagB_exiting, rpos = 2\<rparr>)"
  by (simp add: eval_simps flagA_def flagB_def flagB_exiting_def)

lemma frame_two:
  "frame rndHalf (scatterGame [flagA, flagB]) =
     (scatterGame [flagA, flagB])
        \<lparr>physicsRef := (scatterRef [flagA\<lparr>physics := (physics flagA)\<lparr>x := 1\<rparr>\<rparr>, flagB_exiting])\<lparr>ringAngle := 8 / 10\<rparr>,
         rngPos := 2\<rparr>"
  by (simp add: frame_def framePass_two winnerCheck_def) (simp add: scatterGame_def scatterRef_def)

lemma bounce_flagB:
  "bounce (1 / 2) (1 / 2) \<lparr>x = 149, y = 0, vx = 2, vy = 0, angle = 0, vAngle = 0\<rparr> =
     \<lparr>x = 148, y = 0, vx = - 2, vy = 0, angle = 0, vAngle = 0\<rparr>"
  by (simp add: bounce_def reflect_def pushBack_def perturb_def Let_def dist_of_axis
      BOUNDARY_RADIUS_def FLAG_RADIUS_def)

lemma framePass_sole:
  "framePass rndHalf (scatterGame [flagB]) =
     ((scatterGame [flagB])
        \<lparr>physicsRef := (scatterRef [flagB_bounced])\<lparr>ringAngle := 8 / 10\<rparr>, rngPos := 2\<rparr>,
      \<lparr>activeCount = 1, potentialWinner = Some flagB_bounced, rpos = 2\<rparr>)"
  by (simp add: eval_simps flagB_def flagB_bounced_def bounce_flagB)

lemma frame_sole_flags:
  "flags (physicsRef (frame rndHalf (scatterGame [flagB]))) = [flagB_bounced]"
  by (simp add: frame_flags framePass_sole) (simp add: scatterGame_def scatterRef_def)

section \<open>The elimination guard\<close>

lemma scatterStep_sole_bounce:
  "status flag = active \<Longrightarrow> BOUNDARY_RADIUS \<le> dist_of (integrate (physics flag)) + FLAG_RADIUS \<Longrightarrow>
   scatterStep rnd ref 1 pos flag =
     (flag\<lparr>physics := bounce (rnd pos) (rnd (pos + 1)) (integrate (physics flag))\<rparr>, 2)"
  by (simp add: scatterStep_def Let_def)

lemma frame_exit_guard:
  assumes "i < length (flags (physicsRef g))" "status (flags (physicsRef g) ! i) = active"
    and "status (flags (physicsRef (frame rnd g)) ! i) = exiting"
  shows "1 < countActive (take i (flags (physicsRef (frame rnd g))) @ drop i (flags (physicsRef g)))"
proof (cases "isRunning (physicsRef g) \<and> flags (physicsRef g) \<noteq> []")
  case True
  then show ?thesis
    using assms forEachFlag_exit_guard [of "\<lparr>activeCount = 0, potentialWinner = None, rpos = rngPos g\<rparr>"
        i "flags (physicsRef g)" rnd]
    by (simp add: frame_flags framePass_flags)
next
  case False
  with assms show ?thesis by (simp add: frame_flags)
qed

lemma statusForward_refl [simp]: "statusForward a a"
  by (cases a) simp_all

lemma frame_forward:
  "list_all2 (\<lambda>f f'. code f' = code f \<and> name f' = name f \<and> statusForward (status f) (status f'))
     (flags (physicsRef g)) (flags (physicsRef (frame rnd g)))"
  by (simp add: frame_flags framePass_flags forEachFlag_forward list_all2_same)

text \<open>
  Claim C1. In a frame, a participant goes from active to exiting only while more than
  one participant is active at that moment (those already visited with their new status,
  the others with their old one); a participant that is the only active one at its visit
  stays active, and at a boundary event it takes the bounce branch whatever its angle. So
  a frame never removes the last active participant, and once a round has been started
  no sequence of events leads to a state without an active participant.
\<close>

theorem elimination_guard:
  "(\<forall>i < length (flags (physicsRef g)).
      status (flags (physicsRef g) ! i) = active \<and>
      status (flags (physicsRef (frame rnd g)) ! i) = exiting \<longrightarrow>
      1 < countActive (take i (flags (physicsRef (frame rnd g))) @ drop i (flags (physicsRef g)))) \<and>
   (\<forall>i < length (flags (physicsRef g)).
      status (flags (physicsRef g) ! i) = active \<and>
      countActive (take i (flags (physicsRef (frame rnd g))) @ drop i (flags (physicsRef g))) = 1 \<longrightarrow>
      status (flags (physicsRef (frame rnd g)) ! i) = active) \<and>
   (status flag = active \<and> BOUNDARY_RADIUS \<le> dist_of (integrate (physics flag)) + FLAG_RADIUS \<longrightarrow>
      scatterStep rnd ref 1 pos flag =
        (flag\<lparr>physics := bounce (rnd pos) (rnd (pos + 1)) (integrate (physics flag))\<rparr>, 2)) \<and>
   (0 < countActive (flags (physicsRef g)) \<longrightarrow> 0 < countActive (flags (physicsRef (frame rnd g)))) \<and>
   (rosterShuffle sh \<and> (\<forall>e\<in>set es. validEvent e) \<longrightarrow>
      0 < countActive (flags (physicsRef (run rnd es (initializeGame rnd sh g0)))))"
proof -
  let ?fs = "flags (physicsRef g)" and ?fs' = "flags (physicsRef (frame rnd g))"
  have guard: "1 < countActive (take i ?fs' @ drop i ?fs)"
    if "i < length ?fs" "status (?fs ! i) = active" "status (?fs' ! i) = exiting" for i
    using that by (rule frame_exit_guard)
  have sole: "status (?fs' ! i) = active"
    if i: "i < length ?fs" "status (?fs ! i) = active" "countActive (take i ?fs' @ drop i ?fs) = 1" for i
  proof -
    have "statusForward (status (?fs ! i)) (status (?fs' ! i))"
      using frame_forward [of g rnd] i(1) by (simp add: list_all2_conv_all_nth)
    then have "status (?fs' ! i) = active \<or> status (?fs' ! i) = exiting" using i(2) by simp
    moreover have "status (?fs' ! i) \<noteq> exiting" using guard [OF i(1,2)] i(3) by auto
    ultimately show ?thesis by simp
  qed
  have run: "0 < countActive (flags (physicsRef (run rnd es (initializeGame rnd sh g0))))"
    if "rosterShuffle sh" "\<forall>e\<in>set es. validEvent e"
    using that by (simp add: run_keeps_active initializeGame_active)
  show ?thesis
  proof (intro conjI allI impI)
    fix i
    assume "i < length ?fs" "status (?fs ! i) = active \<and> status (?fs' ! i) = exiting"
    then show "1 < countActive (take i ?fs' @ drop i ?fs)" using guard by blast
  next
    fix i
    assume "i < length ?fs"
      "status (?fs ! i) = active \<and> countActive (take i ?fs' @ drop i ?fs) = 1"
    then show "status (?fs' ! i) = active" using sole by blast
  next
    assume "status flag = active \<and>
      BOUNDARY_RADIUS \<le> dist_of (integrate (physics flag)) + FLAG_RADIUS"
    then show "scatterStep rnd ref 1 pos flag =
        (flag\<lparr>physics := bounce (rnd pos) (rnd (pos + 1)) (integrate (physics flag))\<rparr>, 2)"
      using scatterStep_sole_bounce by blast
  next
    assume "0 < countActive ?fs"
    then show "0 < countActive ?fs'" by (rule frame_keeps_active)
  next
    assume "rosterShuffle sh \<and> (\<forall>e\<in>set es. validEvent e)"
    then show "0 < countActive (flags (physicsRef (run rnd es (initializeGame rnd sh g0))))"
      using run by blast
  qed
qed

theorem elimination_guard_witness:
  "1 < length (flags (physicsRef (scatterGame [flagA, flagB]))) \<and>
   status (flags (physicsRef (scatterGame [flagA, flagB])) ! 1) = active \<and>
   status (flags (physicsRef (frame rndHalf (scatterGame [flagA, flagB]))) ! 1) = exiting \<and>
   1 < countActive (take 1 (flags (physicsRef (frame rndHalf (scatterGame [flagA, flagB])))) @
                   drop 1 (flags (physicsRef (scatterGame [flagA, flagB])))) \<and>
   status (flags (physicsRef (scatterGame [flagB])) ! 0) = active \<and>
   countActive (take 0 (flags (physicsRef (frame rndHalf (scatterGame [flagB])))) @
               drop 0 (flags (physicsRef (scatterGame [flagB])))) = 1 \<and>
   status (flags (physicsRef (frame rndHalf (scatterGame [flagB]))) ! 0) = active \<and>
   rosterShuffle countriesList \<and>
   0 < countActive (flags (physicsRef
         (run rndHalf [Frame, Elapse 2000, Fire 1 countriesList, Frame]
            (initializeGame rndHalf countriesList initialGame))))"
proof -
  note at_two = elimination_guard [of "scatterGame [flagA, flagB]" rndHalf]
  note at_one = elimination_guard [of "scatterGame [flagB]" rndHalf]
  note at_run = elimination_guard [of initialGame rndHalf _ _ _ countriesList
      "[Frame, Elapse 2000, Fire 1 countriesList, Frame]" initialGame]
  have len: "1 < length (flags (physicsRef (scatterGame [flagA, flagB])))"
    by (simp add: scatterGame_def scatterRef_def)
  have h: "status (flags (physicsRef (scatterGame [flagA, flagB])) ! 1) = active \<and>
      status (flags (physicsRef (frame rndHalf (scatterGame [flagA, flagB]))) ! 1) = exiting"
    by (simp add: frame_two) (simp add: scatterGame_def scatterRef_def flagB_def flagB_exiting_def)
  have two: "1 < countActive (take 1 (flags (physicsRef (frame rndHalf (scatterGame [flagA, flagB])))) @
                   drop 1 (flags (physicsRef (scatterGame [flagA, flagB]))))"
    using at_two [THEN conjunct1, rule_format, OF len h] .
  have len1: "0 < length (flags (physicsRef (scatterGame [flagB])))"
    by (simp add: scatterGame_def scatterRef_def)
  have h1: "status (flags (physicsRef (scatterGame [flagB])) ! 0) = active \<and>
      countActive (take 0 (flags (physicsRef (frame rndHalf (scatterGame [flagB])))) @
                  drop 0 (flags (physicsRef (scatterGame [flagB])))) = 1"
    by (simp add: scatterGame_def scatterRef_def flagB_def countActive_def)
  have one: "status (flags (physicsRef (frame rndHalf (scatterGame [flagB]))) ! 0) = active"
    using at_one [THEN conjunct2, THEN conjunct1, rule_format, OF len1 h1] .
  have sh: "rosterShuffle countriesList \<and>
      (\<forall>e\<in>set [Frame, Elapse 2000, Fire 1 countriesList, Frame]. validEvent e)"
    by (simp add: rosterShuffle_def)
  have alive: "0 < countActive (flags (physicsRef
         (run rndHalf [Frame, Elapse 2000, Fire 1 countriesList, Frame]
            (initializeGame rndHalf countriesList initialGame))))"
    using at_run [THEN conjunct2, THEN conjunct2, THEN conjunct2, THEN conjunct2, rule_format, OF sh] .
  from len h two h1 one sh alive show ?thesis by (intro conjI) (elim conjE, assumption)+
qed

section \<open>The position correction\<close>

lemma scatterStep_inside:
  assumes "status (fst (scatterStep rnd ref cnt pos flag)) = active"
  shows "dist_of (physics (fst (scatterStep rnd ref cnt pos flag))) + FLAG_RADIUS \<le> BOUNDARY_RADIUS"
proof (cases "status flag = active")
  case True
  show ?thesis
  proof (cases "BOUNDARY_RADIUS \<le> dist_of (integrate (physics flag)) + FLAG_RADIUS")
    case hit: True
    with True assms show ?thesis
      by (auto simp: scatterStep_def Let_def bounce_dist split: if_splits)
  next
    case False
    with True show ?thesis by (simp add: scatterStep_def Let_def)
  qed
next
  case False
  with assms show ?thesis
    using scatterStep_forward [of flag rnd ref cnt pos] by (cases "status flag") simp_all
qed

lemma visit_inside:
  assumes "phase ref = scatter" "status (fst (visit rnd ref flag lv)) = active"
  shows "dist_of (physics (fst (visit rnd ref flag lv))) + FLAG_RADIUS \<le> BOUNDARY_RADIUS"
proof (cases "status flag = eliminated")
  case True
  with assms show ?thesis by (simp add: visit_def)
next
  case False
  with assms show ?thesis
    using scatterStep_inside [of rnd ref _ "rpos lv" flag]
    by (simp add: visit_def Let_def split_beta)
qed

lemma forEachFlag_inside:
  "phase ref = scatter \<Longrightarrow> f \<in> set (fst (forEachFlag rnd ref fs lv)) \<Longrightarrow> status f = active \<Longrightarrow>
   dist_of (physics f) + FLAG_RADIUS \<le> BOUNDARY_RADIUS"
  by (induction fs arbitrary: lv) (auto simp: split_beta Let_def visit_inside)

lemma frame_inside:
  assumes "phase (physicsRef g) = scatter" "isRunning (physicsRef g)"
    and "f \<in> set (flags (physicsRef (frame rnd g)))" "status f = active"
  shows "dist_of (physics f) + FLAG_RADIUS \<le> BOUNDARY_RADIUS"
proof (cases "flags (physicsRef g) = []")
  case True
  with assms show ?thesis by (simp add: frame_flags)
next
  case False
  with assms show ?thesis
    using forEachFlag_inside [of "(physicsRef g)\<lparr>ringAngle := js_rem (ringAngle (physicsRef g) + ROTATION_SPEED) 360\<rparr>"
        f rnd "flags (physicsRef g)" "\<lparr>activeCount = 0, potentialWinner = None, rpos = rngPos g\<rparr>"]
    by (simp add: frame_flags framePass_flags)
qed

text \<open>
  Claim C10. At a boundary event the bounce puts the participant at distance
  \<open>BOUNDARY_RADIUS - FLAG_RADIUS\<close> from the centre, so after a frame of the scatter phase no
  active participant reaches beyond the boundary.
\<close>

theorem bounce_removes_penetration:
  "(BOUNDARY_RADIUS \<le> dist_of p + FLAG_RADIUS \<longrightarrow>
      dist_of (bounce r1 r2 p) = BOUNDARY_RADIUS - FLAG_RADIUS) \<and>
   (phase (physicsRef g) = scatter \<and> isRunning (physicsRef g) \<longrightarrow>
      (\<forall>f\<in>set (flags (physicsRef (frame rnd g))).
         status f = active \<longrightarrow> dist_of (physics f) + FLAG_RADIUS \<le> BOUNDARY_RADIUS))"
  using bounce_dist [of p r1 r2] frame_inside [of g _ rnd] by blast

theorem bounce_removes_penetration_witness:
  "BOUNDARY_RADIUS \<le> dist_of (integrate (physics flagB)) + FLAG_RADIUS \<and>
   dist_of (bounce (rndHalf 0) (rndHalf 1) (integrate (physics flagB))) = BOUNDARY_RADIUS - FLAG_RADIUS \<and>
   phase (physicsRef (scatterGame [flagB])) = scatter \<and>
   isRunning (physicsRef (scatterGame [flagB])) \<and>
   flagB_bounced \<in> set (flags (physicsRef (frame rndHalf (scatterGame [flagB])))) \<and>
   status flagB_bounced = active \<and>
   dist_of (physics flagB_bounced) + FLAG_RADIUS \<le> BOUNDARY_RADIUS"
proof -
  have h1: "BOUNDARY_RADIUS \<le> dist_of (integrate (physics flagB)) + FLAG_RADIUS"
    by (simp add: integrate_def flagB_def dist_of_axis BOUNDARY_RADIUS_def FLAG_RADIUS_def)
  have h2: "phase (physicsRef (scatterGame [flagB])) = scatter \<and>
      isRunning (physicsRef (scatterGame [flagB]))"
    by (simp add: scatterGame_def scatterRef_def)
  have h3: "flagB_bounced \<in> set (flags (physicsRef (frame rndHalf (scatterGame [flagB]))))"
    by (simp add: frame_sole_flags)
  have h4: "status flagB_bounced = active" by (simp add: flagB_bounced_def)
  from h1 h2 h3 h4
    bounce_removes_penetration [of "integrate (physics flagB)" "rndHalf 0" "rndHalf 1"
      "scatterGame [flagB]" rndHalf]
  show ?thesis by blast
qed

section \<open>The winner check\<close>

lemma framePass_other [simp]:
  "leaderboard (fst (framePass rnd g)) = leaderboard g"
  "flags_state (fst (framePass rnd g)) = flags_state g"
  "winner_state (fst (framePass rnd g)) = winner_state g"
  "timers (fst (framePass rnd g)) = timers g"
  "nextTimerId (fst (framePass rnd g)) = nextTimerId g"
  "now (fst (framePass rnd g)) = now g"
  "startTimeoutRef (fst (framePass rnd g)) = startTimeoutRef g"
  by (simp_all add: framePass_def Let_def split_beta)

lemma onSingleSurvivor_simps:
  "flags_state (onSingleSurvivor w g) = map (markWinner w) (flags (physicsRef g))"
  "leaderboard (onSingleSurvivor w g) = updateLeaderboard w (leaderboard g)"
  "winner_state (onSingleSurvivor w g) = Some w"
  "timers (onSingleSurvivor w g) =
     timers g @ [\<lparr>tid = nextTimerId g, due = now g + 5000, callback = AutoRestart\<rparr>]"
  "nextTimerId (onSingleSurvivor w g) = nextTimerId g + 1"
  "now (onSingleSurvivor w g) = now g"
  "startTimeoutRef (onSingleSurvivor w g) = startTimeoutRef g"
  "rngPos (onSingleSurvivor w g) = rngPos g"
  by (simp_all add: onSingleSurvivor_def setTimeout_def Let_def markWinner_def [abs_def])

lemma handlerFires_winner:
  "handlerFires rnd g \<Longrightarrow> \<exists>w. potentialWinner (snd (framePass rnd g)) = Some w"
  by (auto simp: handlerFires_def winnerCheck_def)

lemma frame_fires:
  "handlerFires rnd g \<Longrightarrow> potentialWinner (snd (framePass rnd g)) = Some w \<Longrightarrow>
   frame rnd g = onSingleSurvivor w (fst (framePass rnd g))"
  by (simp add: frame_def handlerFires_def split_beta Let_def)

lemma frame_quiet:
  "\<not> handlerFires rnd g \<Longrightarrow>
   frame rnd g = (if isRunning (physicsRef g) \<and> flags (physicsRef g) \<noteq> []
                  then fst (framePass rnd g) else g)"
  by (auto simp: frame_def handlerFires_def split_beta Let_def)

lemma frame_stopped: "\<not> isRunning (physicsRef g) \<Longrightarrow> frame rnd g = g"
  by (simp add: frame_def)

lemma handlerFires_stops: "handlerFires rnd g \<Longrightarrow> \<not> isRunning (physicsRef (frame rnd g))"
  using handlerFires_winner [of rnd g] by (auto simp: frame_fires onSingleSurvivor_physicsRef)

lemma countActive_forward_le:
  "list_all2 (\<lambda>f f'. code f' = code f \<and> name f' = name f \<and> statusForward (status f) (status f')) fs fs' \<Longrightarrow>
   countActive fs' \<le> countActive fs"
proof (induction rule: list_all2_induct)
  case Nil
  then show ?case by simp
next
  case (Cons f fs f' fs')
  then show ?case by (cases "status f") (auto simp: countActive_def)
qed

lemma handlerFires_facts:
  assumes "handlerFires rnd g"
  shows "phase (physicsRef g) = scatter" "isRunning (physicsRef g)"
    "countActive (flags (physicsRef g)) = 1" "countActive (flags (physicsRef (frame rnd g))) = 1"
proof -
  show "phase (physicsRef g) = scatter" "isRunning (physicsRef g)"
    using assms by (simp_all add: handlerFires_def winnerCheck_def)
  show one: "countActive (flags (physicsRef g)) = 1"
    using assms by (simp add: handlerFires_def winnerCheck_def framePass_activeCount)
  have "countActive (flags (physicsRef (frame rnd g))) \<le> countActive (flags (physicsRef g))"
    using frame_forward by (rule countActive_forward_le)
  moreover have "0 < countActive (flags (physicsRef (frame rnd g)))"
    using one by (simp add: frame_keeps_active)
  ultimately show "countActive (flags (physicsRef (frame rnd g))) = 1" using one by simp
qed

section \<open>At most one win in a round\<close>

lemma stopped_step:
  assumes "\<not> isRunning (physicsRef g)" "\<not> startsRound g e"
  shows "\<not> isRunning (physicsRef (step rnd e g))"
proof (cases e)
  case Frame
  with assms show ?thesis by (simp add: frame_stopped)
next
  case (Elapse dt)
  with assms show ?thesis by (simp add: elapse_def)
next
  case (Fire i sh)
  with assms show ?thesis
    by (auto simp: fireTimer_def startsRound_def runCallback_def split: option.splits Callback.splits)
next
  case (Init sh)
  with assms show ?thesis by (simp add: startsRound_def)
qed

lemma stopped_no_wins: "\<not> isRunning (physicsRef g) \<Longrightarrow> winsInRound rnd g es = 0"
proof (induction es arbitrary: g)
  case Nil
  then show ?case by simp
next
  case (Cons e es)
  then show ?case by (simp add: stopped_step handlerFires_def)
qed

lemma winsInRound_le_1: "winsInRound rnd g es \<le> 1"
proof (induction es arbitrary: g)
  case Nil
  then show ?case by simp
next
  case (Cons e es)
  show ?case
  proof (cases "e = Frame \<and> handlerFires rnd g")
    case True
    then have "winsInRound rnd (step rnd e g) es = 0"
      by (simp add: stopped_no_wins handlerFires_stops)
    then show ?thesis by simp
  next
    case False
    with Cons.IH [of "step rnd e g"] show ?thesis by auto
  qed
qed

section \<open>The candidate survivor\<close>

lemma visit_potentialWinner_idle:
  "status flag \<noteq> active \<Longrightarrow> potentialWinner (snd (visit rnd ref flag lv)) = potentialWinner lv"
  by (simp add: visit_def Let_def split_beta)

lemma visit_potentialWinner_active:
  "status flag = active \<Longrightarrow>
   potentialWinner (snd (visit rnd ref flag lv)) = Some (fst (visit rnd ref flag lv))"
  by (simp add: visit_def Let_def split_beta)

lemma forEachFlag_potentialWinner_idle:
  "countActive fs = 0 \<Longrightarrow> potentialWinner (snd (forEachFlag rnd ref fs lv)) = potentialWinner lv"
proof (induction fs arbitrary: lv)
  case Nil
  then show ?case by simp
next
  case (Cons f fs)
  then have "status f \<noteq> active" "countActive fs = 0"
    by (auto simp: countActive_def split: if_splits)
  with Cons.IH show ?case by (simp add: split_beta Let_def visit_potentialWinner_idle)
qed

lemma forEachFlag_sole_survivor:
  "activeCount lv = 0 \<Longrightarrow> countActive fs = 1 \<Longrightarrow>
   \<exists>w. potentialWinner (snd (forEachFlag rnd ref fs lv)) = Some w \<and>
       w \<in> set (fst (forEachFlag rnd ref fs lv)) \<and> status w = active"
proof (induction fs arbitrary: lv)
  case Nil
  then show ?case by (simp add: countActive_def)
next
  case (Cons f fs)
  show ?case
  proof (cases "status f = active")
    case True
    with Cons.prems have rest: "countActive fs = 0" by (simp add: countActive_def)
    have "status (fst (visit rnd ref f lv)) = active"
      using True Cons.prems(1) by (rule visit_sole)
    then show ?thesis
      using True by (simp add: split_beta Let_def forEachFlag_potentialWinner_idle [OF rest]
          visit_potentialWinner_active)
  next
    case False
    with Cons.prems have "activeCount (snd (visit rnd ref f lv)) = 0" "countActive fs = 1"
      by (simp_all add: visit_activeCount countActive_def)
    from Cons.IH [OF this] show ?thesis by (auto simp: split_beta Let_def)
  qed
qed

lemma handlerFires_survivor:
  assumes "handlerFires rnd g"
  shows "\<exists>w. potentialWinner (snd (framePass rnd g)) = Some w \<and>
             w \<in> set (flags (physicsRef (frame rnd g))) \<and> status w = active"
proof -
  have "countActive (flags (physicsRef g)) = 1" "isRunning (physicsRef g)"
    using assms by (rule handlerFires_facts)+
  moreover have "flags (physicsRef g) \<noteq> []" using assms by (simp add: handlerFires_def)
  ultimately show ?thesis
    using forEachFlag_sole_survivor [of "\<lparr>activeCount = 0, potentialWinner = None, rpos = rngPos g\<rparr>"
        "flags (physicsRef g)" rnd
        "(physicsRef g)\<lparr>ringAngle := js_rem (ringAngle (physicsRef g) + ROTATION_SPEED) 360\<rparr>"]
    by (simp add: frame_flags framePass_flags) (simp add: framePass_def split_beta Let_def)
qed

section \<open>Winners in reachable states\<close>

lemma forward_codes:
  "list_all2 (\<lambda>f f'. code f' = code f \<and> name f' = name f \<and> statusForward (status f) (status f')) fs fs' \<Longrightarrow>
   map code fs' = map code fs"
  by (induction rule: list_all2_induct) simp_all

lemma forward_countWinner:
  "list_all2 (\<lambda>f f'. code f' = code f \<and> name f' = name f \<and> statusForward (status f) (status f')) fs fs' \<Longrightarrow>
   countWinner fs' = countWinner fs"
proof (induction rule: list_all2_induct)
  case Nil
  then show ?case by simp
next
  case (Cons f fs f' fs')
  then show ?case by (cases "status f") (auto simp: countWinner_def)
qed

lemma countWinner_Cons:
  "countWinner (f # fs) = (if status f = winner then 1 else 0) + countWinner fs"
  by (simp add: countWinner_def)

lemma markWinner_status: "status (markWinner w f) = (if code f = code w then winner else status f)"
  by (simp add: markWinner_def)

lemma markWinner_absent: "code w \<notin> set (map code fs) \<Longrightarrow> map (markWinner w) fs = fs"
  by (induction fs) (auto simp: markWinner_def)

lemma countWinner_mark_le:
  "distinct (map code fs) \<Longrightarrow> countWinner fs = 0 \<Longrightarrow> countWinner (map (markWinner w) fs) \<le> 1"
proof (induction fs)
  case Nil
  then show ?case by (simp add: countWinner_def)
next
  case (Cons f fs)
  then have rest: "countWinner fs = 0" and f: "status f \<noteq> winner"
    by (auto simp: countWinner_Cons split: if_splits)
  show ?case
  proof (cases "code f = code w")
    case True
    with Cons.prems have "map (markWinner w) fs = fs" by (simp add: markWinner_absent)
    with rest True show ?thesis by (simp add: countWinner_Cons markWinner_status)
  next
    case False
    with Cons f rest show ?thesis by (simp add: countWinner_Cons markWinner_status)
  qed
qed

lemma countWinner_mark_member:
  "distinct (map code fs) \<Longrightarrow> countWinner fs = 0 \<Longrightarrow> w \<in> set fs \<Longrightarrow>
   countWinner (map (markWinner w) fs) = 1"
proof (induction fs)
  case Nil
  then show ?case by simp
next
  case (Cons f fs)
  then have rest: "countWinner fs = 0" and f: "status f \<noteq> winner"
    by (auto simp: countWinner_Cons split: if_splits)
  show ?case
  proof (cases "code f = code w")
    case True
    with Cons.prems have "map (markWinner w) fs = fs" by (simp add: markWinner_absent)
    with rest True show ?thesis by (simp add: countWinner_Cons markWinner_status)
  next
    case False
    with Cons.prems have "w \<in> set fs" by auto
    with Cons False f rest show ?thesis by (simp add: countWinner_Cons markWinner_status)
  qed
qed

lemma roundInv_init: "rosterShuffle sh \<Longrightarrow> roundInv (initializeGame rnd sh g)"
proof -
  assume sh: "rosterShuffle sh"
  have "filter (\<lambda>f. status f = winner) (initialFlags rnd (rngPos g) sh) = []"
    by (auto simp: filter_empty_conv dest: initialFlags_active)
  then have "countWinner (initialFlags rnd (rngPos g) sh) = 0" by (simp add: countWinner_def)
  then show ?thesis
    using rosterShuffle_distinct [OF sh]
    by (simp add: roundInv_def initializeGame_physicsRef initializeGame_flags_state initialFlags_codes)
qed

lemma roundInv_frame:
  assumes "roundInv g"
  shows "roundInv (frame rnd g)"
proof -
  let ?fs' = "flags (physicsRef (frame rnd g))"
  have codes: "distinct (map code ?fs')"
    using assms forward_codes [OF frame_forward [of g rnd]] by (simp add: roundInv_def)
  have nowin: "countWinner ?fs' = 0"
    using assms forward_countWinner [OF frame_forward [of g rnd]] by (simp add: roundInv_def)
  show ?thesis
  proof (cases "handlerFires rnd g")
    case True
    then obtain w where w: "potentialWinner (snd (framePass rnd g)) = Some w"
      using handlerFires_winner by blast
    have fl: "?fs' = flags (physicsRef (fst (framePass rnd g)))"
      using True by (simp add: frame_flags handlerFires_def)
    have "flags_state (frame rnd g) = map (markWinner w) ?fs'"
      using True w fl by (simp add: frame_fires onSingleSurvivor_simps)
    then have "countWinner (flags_state (frame rnd g)) \<le> 1"
      using countWinner_mark_le [OF codes nowin, of w] by simp
    with codes nowin handlerFires_stops [OF True] show ?thesis by (simp add: roundInv_def)
  next
    case False
    then have "flags_state (frame rnd g) = flags_state g"
      "isRunning (physicsRef (frame rnd g)) = isRunning (physicsRef g)"
      by (simp_all add: frame_quiet)
    with codes nowin assms show ?thesis by (simp add: roundInv_def)
  qed
qed

lemma roundInv_step:
  assumes "validEvent e" "roundInv g"
  shows "roundInv (step rnd e g)"
proof (cases e)
  case Frame
  with assms show ?thesis by (simp add: roundInv_frame)
next
  case (Elapse dt)
  with assms show ?thesis by (simp add: elapse_def roundInv_def)
next
  case (Fire i sh)
  with assms have sh: "rosterShuffle sh" by simp
  show ?thesis
  proof (cases "find (\<lambda>t. tid t = i \<and> due t \<le> now g) (timers g)")
    case None
    with Fire assms show ?thesis by (simp add: fireTimer_def)
  next
    case (Some t)
    show ?thesis
    proof (cases "callback t")
      case StartScatter
      with Some Fire assms show ?thesis by (simp add: fireTimer_def runCallback_def roundInv_def)
    next
      case AutoRestart
      with Some Fire show ?thesis
        using roundInv_init [OF sh] by (simp add: fireTimer_def runCallback_def)
    qed
  qed
next
  case (Init sh)
  with assms show ?thesis by (simp add: roundInv_init)
qed

lemma roundInv_run: "\<forall>e\<in>set es. validEvent e \<Longrightarrow> roundInv g \<Longrightarrow> roundInv (run rnd es g)"
  by (induction es arbitrary: g) (simp_all add: roundInv_step)

lemma roundInv_reachable:
  "rosterShuffle sh \<Longrightarrow> \<forall>e\<in>set es. validEvent e \<Longrightarrow> roundInv (run rnd es (initializeGame rnd sh g0))"
  by (simp add: roundInv_run roundInv_init)

lemma roundInv_one_winner:
  assumes "roundInv g" "handlerFires rnd g"
  shows "countWinner (flags_state (frame rnd g)) = 1"
proof -
  obtain w where w: "potentialWinner (snd (framePass rnd g)) = Some w"
    "w \<in> set (flags (physicsRef (frame rnd g)))"
    using handlerFires_survivor [OF assms(2)] by blast
  have inv: "roundInv (frame rnd g)" using assms(1) by (rule roundInv_frame)
  have fl: "flags (physicsRef (frame rnd g)) = flags (physicsRef (fst (framePass rnd g)))"
    using assms(2) by (simp add: frame_flags handlerFires_def)
  have "flags_state (frame rnd g) = map (markWinner w) (flags (physicsRef (frame rnd g)))"
    using assms(2) w(1) fl by (simp add: frame_fires onSingleSurvivor_simps)
  moreover have "distinct (map code (flags (physicsRef (frame rnd g))))"
    "countWinner (flags (physicsRef (frame rnd g))) = 0"
    using inv by (simp_all add: roundInv_def)
  ultimately show ?thesis
    using countWinner_mark_member [of "flags (physicsRef (frame rnd g))" w] w(2) by simp
qed

text \<open>
  Claim C3. The body of the winner check runs only in the scatter phase, while running,
  with exactly one active participant, and it leaves running false; a frame that does not
  enter it changes neither the winner, the leaderboard, the displayed flags nor the
  timers, and a frame of a stopped game changes nothing. So along any sequence of events
  the body runs at most once before the next round starts, and in every state reached
  after a round has started at most one displayed flag is a winner (exactly one right
  after the body has run) and no participant of the simulation is.
\<close>

theorem single_survivor_handler_once:
  "(handlerFires rnd g \<longrightarrow>
      phase (physicsRef g) = scatter \<and> isRunning (physicsRef g) \<and>
      countActive (flags (physicsRef g)) = 1 \<and>
      countActive (flags (physicsRef (frame rnd g))) = 1 \<and>
      \<not> isRunning (physicsRef (frame rnd g))) \<and>
   (\<not> handlerFires rnd g \<longrightarrow>
      winner_state (frame rnd g) = winner_state g \<and> leaderboard (frame rnd g) = leaderboard g \<and>
      flags_state (frame rnd g) = flags_state g \<and> timers (frame rnd g) = timers g) \<and>
   (\<not> isRunning (physicsRef g) \<longrightarrow> \<not> handlerFires rnd g \<and> frame rnd g = g) \<and>
   winsInRound rnd g es \<le> 1 \<and>
   (rosterShuffle sh \<and> (\<forall>e\<in>set es. validEvent e) \<longrightarrow>
      countWinner (flags_state (run rnd es (initializeGame rnd sh g0))) \<le> 1 \<and>
      countWinner (flags (physicsRef (run rnd es (initializeGame rnd sh g0)))) = 0 \<and>
      (handlerFires rnd (run rnd es (initializeGame rnd sh g0)) \<longrightarrow>
         countWinner (flags_state (frame rnd (run rnd es (initializeGame rnd sh g0)))) = 1))"
proof (intro conjI impI)
  assume h: "handlerFires rnd g"
  from h show "phase (physicsRef g) = scatter" by (rule handlerFires_facts)
  from h show "isRunning (physicsRef g)" by (rule handlerFires_facts)
  from h show "countActive (flags (physicsRef g)) = 1" by (rule handlerFires_facts)
  from h show "countActive (flags (physicsRef (frame rnd g))) = 1" by (rule handlerFires_facts)
  from h show "\<not> isRunning (physicsRef (frame rnd g))" by (rule handlerFires_stops)
next
  assume h: "\<not> handlerFires rnd g"
  then show "winner_state (frame rnd g) = winner_state g" by (simp add: frame_quiet)
  from h show "leaderboard (frame rnd g) = leaderboard g" by (simp add: frame_quiet)
  from h show "flags_state (frame rnd g) = flags_state g" by (simp add: frame_quiet)
  from h show "timers (frame rnd g) = timers g" by (simp add: frame_quiet)
next
  assume "\<not> isRunning (physicsRef g)"
  then show "\<not> handlerFires rnd g" by (simp add: handlerFires_def)
next
  assume "\<not> isRunning (physicsRef g)"
  then show "frame rnd g = g" by (rule frame_stopped)
next
  show "winsInRound rnd g es \<le> 1" by (rule winsInRound_le_1)
next
  assume "rosterShuffle sh \<and> (\<forall>e\<in>set es. validEvent e)"
  then have "roundInv (run rnd es (initializeGame rnd sh g0))" by (simp add: roundInv_reachable)
  then show "countWinner (flags_state (run rnd es (initializeGame rnd sh g0))) \<le> 1"
    by (simp add: roundInv_def)
next
  assume "rosterShuffle sh \<and> (\<forall>e\<in>set es. validEvent e)"
  then have "roundInv (run rnd es (initializeGame rnd sh g0))" by (simp add: roundInv_reachable)
  then show "countWinner (flags (physicsRef (run rnd es (initializeGame rnd sh g0)))) = 0"
    by (simp add: roundInv_def)
next
  assume "rosterShuffle sh \<and> (\<forall>e\<in>set es. validEvent e)"
    and "handlerFires rnd (run rnd es (initializeGame rnd sh g0))"
  then show "countWinner (flags_state (frame rnd (run rnd es (initializeGame rnd sh g0)))) = 1"
    by (simp add: roundInv_reachable roundInv_one_winner)
qed

lemma framePass_last:
  "framePass rndHalf (scatterGame [flagA, flagB_exiting]) =
     ((scatterGame [flagA, flagB_exiting])
        \<lparr>physicsRef := (scatterRef [flagA\<lparr>physics := (physics flagA)\<lparr>x := 1\<rparr>\<rparr>,
                                     flagB_exiting\<lparr>physics := (physics flagB_exiting)\<lparr>x := 1522 / 10, angle := - 8\<rparr>\<rparr>])
                         \<lparr>ringAngle := 8 / 10\<rparr>,
         rngPos := 0\<rparr>,
      \<lparr>activeCount = 1, potentialWinner = Some (flagA\<lparr>physics := (physics flagA)\<lparr>x := 1\<rparr>\<rparr>), rpos = 0\<rparr>)"
  by (simp add: eval_simps flagA_def flagB_exiting_def)

lemma handlerFires_last: "handlerFires rndHalf (scatterGame [flagA, flagB_exiting])"
  by (simp add: handlerFires_def framePass_last winnerCheck_def)
    (simp add: scatterGame_def scatterRef_def)

theorem single_survivor_handler_once_witness:
  "handlerFires rndHalf (scatterGame [flagA, flagB_exiting]) \<and>
   phase (physicsRef (scatterGame [flagA, flagB_exiting])) = scatter \<and>
   isRunning (physicsRef (scatterGame [flagA, flagB_exiting])) \<and>
   countActive (flags (physicsRef (scatterGame [flagA, flagB_exiting]))) = 1 \<and>
   countActive (flags (physicsRef (frame rndHalf (scatterGame [flagA, flagB_exiting])))) = 1 \<and>
   \<not> isRunning (physicsRef (frame rndHalf (scatterGame [flagA, flagB_exiting]))) \<and>
   winsInRound rndHalf (scatterGame [flagA, flagB_exiting]) [Frame, Frame] \<le> 1 \<and>
   rosterShuffle countriesList \<and>
   countWinner (flags_state (run rndHalf [Frame] (initializeGame rndHalf countriesList initialGame))) \<le> 1"
proof -
  have sh: "rosterShuffle countriesList \<and> (\<forall>e\<in>set [Frame]. validEvent e)"
    by (simp add: rosterShuffle_def)
  from handlerFires_last sh
    single_survivor_handler_once [of rndHalf "scatterGame [flagA, flagB_exiting]" "[Frame, Frame]"]
    single_survivor_handler_once [of rndHalf "scatterGame [flagA, flagB_exiting]" "[Frame]"
      countriesList initialGame]
  show ?thesis by blast
qed

section \<open>Forward-only status\<close>

lemma winner_assignment_forward:
  assumes "handlerFires rnd g" "distinct (map code (flags (physicsRef g)))"
  shows "list_all2 (\<lambda>f f'. code f' = code f \<and>
                      (status f' = status f \<or> (status f = active \<and> status f' = winner)))
           (flags (physicsRef (frame rnd g))) (flags_state (frame rnd g))"
proof -
  let ?fs' = "flags (physicsRef (frame rnd g))"
  obtain w where w: "potentialWinner (snd (framePass rnd g)) = Some w" "w \<in> set ?fs'"
    "status w = active"
    using handlerFires_survivor [OF assms(1)] by blast
  have fl: "?fs' = flags (physicsRef (fst (framePass rnd g)))"
    using assms(1) by (simp add: frame_flags handlerFires_def)
  have st: "flags_state (frame rnd g) = map (markWinner w) ?fs'"
    using assms(1) w(1) fl by (simp add: frame_fires onSingleSurvivor_simps)
  have "distinct (map code ?fs')"
    using assms(2) forward_codes [OF frame_forward [of g rnd]] by simp
  then have inj: "inj_on code (set ?fs')" by (simp add: distinct_map)
  have "code (markWinner w f) = code f \<and>
        (status (markWinner w f) = status f \<or> (status f = active \<and> status (markWinner w f) = winner))"
    if "f \<in> set ?fs'" for f
  proof (cases "code f = code w")
    case True
    with inj that w(2) have "f = w" by (auto dest: inj_onD)
    with w(3) show ?thesis by (simp add: markWinner_def)
  next
    case False
    then show ?thesis by (simp add: markWinner_def)
  qed
  then show ?thesis
    unfolding st by (simp add: list_all2_map2 list_all2_same)
qed

lemma winner_displayed_stopped:
  assumes "roundInv g" "f \<in> set (flags_state g)" "status f = winner"
  shows "frame rnd g = g"
proof -
  have "filter (\<lambda>f. status f = winner) (flags_state g) \<noteq> []"
    using assms(2,3) by (auto simp: filter_empty_conv)
  then have "0 < countWinner (flags_state g)" by (simp add: countWinner_def)
  with assms(1) have "\<not> isRunning (physicsRef g)" by (simp add: roundInv_def)
  then show ?thesis by (rule frame_stopped)
qed

lemma other_events_keep_flags:
  assumes "e \<noteq> Frame" "\<not> startsRound g e"
  shows "flags (physicsRef (step rnd e g)) = flags (physicsRef g) \<and>
         flags_state (step rnd e g) = flags_state g"
proof (cases e)
  case Frame
  with assms show ?thesis by simp
next
  case (Elapse dt)
  then show ?thesis by (simp add: elapse_def)
next
  case (Fire i sh)
  with assms show ?thesis
    by (auto simp: fireTimer_def startsRound_def runCallback_def split: option.splits Callback.splits)
next
  case (Init sh)
  with assms show ?thesis by (simp add: startsRound_def)
qed

lemma initializeGame_all_active:
  "f \<in> set (flags (physicsRef (initializeGame rnd sh g))) \<Longrightarrow> status f = active"
  by (simp add: initializeGame_physicsRef initialFlags_active)

text \<open>
  Claim C9. A frame moves the status of every participant of the simulation forward or
  leaves it (active to exiting, exiting to eliminated, nothing else; a winner stays a
  winner). The displayed flags change only when the winner check's body runs, and then
  they are the simulation's flags with the survivor, which was active, marked winner. In
  the states the component reaches a displayed winner implies a stopped game, for which a
  frame changes nothing. The other events that do not start a round leave both lists
  alone, and \<open>initializeGame\<close> replaces both by a list of active participants.
\<close>

theorem status_moves_forward:
  "list_all2 (\<lambda>f f'. code f' = code f \<and> name f' = name f \<and> statusForward (status f) (status f'))
     (flags (physicsRef g)) (flags (physicsRef (frame rnd g))) \<and>
   (\<not> handlerFires rnd g \<longrightarrow> flags_state (frame rnd g) = flags_state g) \<and>
   (handlerFires rnd g \<and> distinct (map code (flags (physicsRef g))) \<longrightarrow>
      list_all2 (\<lambda>f f'. code f' = code f \<and>
                   (status f' = status f \<or> (status f = active \<and> status f' = winner)))
        (flags (physicsRef (frame rnd g))) (flags_state (frame rnd g))) \<and>
   (roundInv g \<and> (\<exists>f\<in>set (flags_state g). status f = winner) \<longrightarrow> frame rnd g = g) \<and>
   (roundInv g \<and> validEvent e \<longrightarrow> roundInv (step rnd e g)) \<and>
   (rosterShuffle sh \<longrightarrow> roundInv (initializeGame rnd sh g)) \<and>
   (e \<noteq> Frame \<and> \<not> startsRound g e \<longrightarrow>
      flags (physicsRef (step rnd e g)) = flags (physicsRef g) \<and>
      flags_state (step rnd e g) = flags_state g) \<and>
   (\<forall>f\<in>set (flags (physicsRef (initializeGame rnd sh g))). status f = active) \<and>
   flags_state (initializeGame rnd sh g) = flags (physicsRef (initializeGame rnd sh g))"
proof (intro conjI impI ballI)
  show "list_all2 (\<lambda>f f'. code f' = code f \<and> name f' = name f \<and> statusForward (status f) (status f'))
     (flags (physicsRef g)) (flags (physicsRef (frame rnd g)))"
    by (rule frame_forward)
next
  assume "\<not> handlerFires rnd g"
  then show "flags_state (frame rnd g) = flags_state g" by (simp add: frame_quiet)
next
  assume "handlerFires rnd g \<and> distinct (map code (flags (physicsRef g)))"
  then show "list_all2 (\<lambda>f f'. code f' = code f \<and>
                   (status f' = status f \<or> (status f = active \<and> status f' = winner)))
        (flags (physicsRef (frame rnd g))) (flags_state (frame rnd g))"
    by (simp add: winner_assignment_forward)
next
  assume "roundInv g \<and> (\<exists>f\<in>set (flags_state g). status f = winner)"
  then show "frame rnd g = g" using winner_displayed_stopped by blast
next
  assume "roundInv g \<and> validEvent e"
  then show "roundInv (step rnd e g)" by (simp add: roundInv_step)
next
  assume "rosterShuffle sh"
  then show "roundInv (initializeGame rnd sh g)" by (rule roundInv_init)
next
  assume "e \<noteq> Frame \<and> \<not> startsRound g e"
  then show "flags (physicsRef (step rnd e g)) = flags (physicsRef g)"
    using other_events_keep_flags by blast
next
  assume "e \<noteq> Frame \<and> \<not> startsRound g e"
  then show "flags_state (step rnd e g) = flags_state g"
    using other_events_keep_flags by blast
next
  fix f
  assume "f \<in> set (flags (physicsRef (initializeGame rnd sh g)))"
  then show "status f = active" by (rule initializeGame_all_active)
next
  show "flags_state (initializeGame rnd sh g) = flags (physicsRef (initializeGame rnd sh g))"
    by (simp add: initializeGame_physicsRef initializeGame_flags_state)
qed

lemma frame_last:
  "frame rndHalf (scatterGame [flagA, flagB_exiting]) =
     onSingleSurvivor (flagA\<lparr>physics := (physics flagA)\<lparr>x := 1\<rparr>\<rparr>)
       (fst (framePass rndHalf (scatterGame [flagA, flagB_exiting])))"
  using handlerFires_last by (rule frame_fires) (simp add: framePass_last)

lemma frame_last_flags_state:
  "flags_state (frame rndHalf (scatterGame [flagA, flagB_exiting])) =
     [flagA\<lparr>status := winner, physics := (physics flagA)\<lparr>x := 1\<rparr>\<rparr>,
      flagB_exiting\<lparr>physics := (physics flagB_exiting)\<lparr>x := 1522 / 10, angle := - 8\<rparr>\<rparr>]"
  by (simp add: frame_last onSingleSurvivor_simps framePass_last)
    (simp add: scatterRef_def markWinner_def flagA_def flagB_exiting_def)

lemma roundInv_last: "roundInv (scatterGame [flagA, flagB_exiting])"
  by (simp add: roundInv_def scatterGame_def scatterRef_def countWinner_def flagA_def
      flagB_exiting_def)

theorem status_moves_forward_witness:
  "handlerFires rndHalf (scatterGame [flagA, flagB_exiting]) \<and>
   distinct (map code (flags (physicsRef (scatterGame [flagA, flagB_exiting])))) \<and>
   list_all2 (\<lambda>f f'. code f' = code f \<and>
                (status f' = status f \<or> (status f = active \<and> status f' = winner)))
     (flags (physicsRef (frame rndHalf (scatterGame [flagA, flagB_exiting]))))
     (flags_state (frame rndHalf (scatterGame [flagA, flagB_exiting]))) \<and>
   roundInv (frame rndHalf (scatterGame [flagA, flagB_exiting])) \<and>
   status (hd (flags_state (frame rndHalf (scatterGame [flagA, flagB_exiting])))) = winner \<and>
   frame rndHalf (frame rndHalf (scatterGame [flagA, flagB_exiting])) =
     frame rndHalf (scatterGame [flagA, flagB_exiting]) \<and>
   \<not> handlerFires rndHalf (scatterGame [flagA, flagB]) \<and>
   flags_state (frame rndHalf (scatterGame [flagA, flagB])) = flags_state (scatterGame [flagA, flagB])"
proof -
  let ?g = "scatterGame [flagA, flagB_exiting]"
  note at_g = status_moves_forward [of ?g rndHalf Frame]
  note at_w = status_moves_forward [of "frame rndHalf ?g" rndHalf]
  note at_two = status_moves_forward [of "scatterGame [flagA, flagB]" rndHalf]
  have d: "distinct (map code (flags (physicsRef ?g)))"
    by (simp add: scatterGame_def scatterRef_def flagA_def flagB_exiting_def)
  have marked: "list_all2 (\<lambda>f f'. code f' = code f \<and>
                (status f' = status f \<or> (status f = active \<and> status f' = winner)))
     (flags (physicsRef (frame rndHalf ?g))) (flags_state (frame rndHalf ?g))"
    using at_g [THEN conjunct2, THEN conjunct2, THEN conjunct1] handlerFires_last d by (rule mp [OF _ conjI])
  have "roundInv (step rndHalf Frame ?g)"
    using at_g [THEN conjunct2, THEN conjunct2, THEN conjunct2, THEN conjunct2, THEN conjunct1]
      roundInv_last
    by simp
  then have inv: "roundInv (frame rndHalf ?g)" by simp
  have win: "status (hd (flags_state (frame rndHalf ?g))) = winner"
    "\<exists>f\<in>set (flags_state (frame rndHalf ?g)). status f = winner"
    by (simp_all add: frame_last_flags_state)
  have stopped: "frame rndHalf (frame rndHalf ?g) = frame rndHalf ?g"
    using at_w [THEN conjunct2, THEN conjunct2, THEN conjunct2, THEN conjunct1] inv win(2)
    by (rule mp [OF _ conjI])
  have quiet: "\<not> handlerFires rndHalf (scatterGame [flagA, flagB])"
    by (simp add: handlerFires_def framePass_two winnerCheck_def)
  have same: "flags_state (frame rndHalf (scatterGame [flagA, flagB])) =
      flags_state (scatterGame [flagA, flagB])"
    using at_two [THEN conjunct2, THEN conjunct1] quiet by (rule mp)
  from handlerFires_last d marked inv win(1) stopped quiet same show ?thesis by (intro conjI)
qed

section \<open>The leaderboard\<close>

lemma updateLeaderboard_sorted:
  "sorted_wrt (\<lambda>a b. wins b \<le> wins a) (updateLeaderboard w prev)"
proof -
  have "sorted (map (\<lambda>e. - wins e) (updateLeaderboard w prev))"
    by (simp add: updateLeaderboard_def Let_def)
  then show ?thesis by (simp add: sorted_map)
qed

lemma updateLeaderboard_existing:
  "\<exists>e\<in>set prev. code e = code w \<Longrightarrow>
   mset (updateLeaderboard w prev) =
     mset (map (\<lambda>p. if code p = code w then p\<lparr>wins := wins p + 1\<rparr> else p) prev)"
proof -
  assume "\<exists>e\<in>set prev. code e = code w"
  then have "find (\<lambda>p. code p = code w) prev \<noteq> None" by (auto simp: find_None_iff)
  then show ?thesis by (auto simp: updateLeaderboard_def Let_def)
qed

lemma updateLeaderboard_new:
  "\<not> (\<exists>e\<in>set prev. code e = code w) \<Longrightarrow>
   mset (updateLeaderboard w prev) = mset prev + {#\<lparr>code = code w, name = name w, wins = 1\<rparr>#}"
proof -
  assume "\<not> (\<exists>e\<in>set prev. code e = code w)"
  then have "find (\<lambda>p. code p = code w) prev = None" by (auto simp: find_None_iff)
  then show ?thesis by (simp add: updateLeaderboard_def Let_def)
qed

lemma updateLeaderboard_AAB:
  assumes "code a \<noteq> code b"
  shows "updateLeaderboard b (updateLeaderboard a (updateLeaderboard a [])) =
     [\<lparr>code = code a, name = name a, wins = 2\<rparr>, \<lparr>code = code b, name = name b, wins = 1\<rparr>]"
proof -
  have 1: "updateLeaderboard a [] = [\<lparr>code = code a, name = name a, wins = 1\<rparr>]"
    by (simp add: updateLeaderboard_def)
  have 2: "updateLeaderboard a [\<lparr>code = code a, name = name a, wins = 1\<rparr>] =
      [\<lparr>code = code a, name = name a, wins = 2\<rparr>]"
    by (simp add: updateLeaderboard_def)
  have 3: "updateLeaderboard b [\<lparr>code = code a, name = name a, wins = 2\<rparr>] =
      [\<lparr>code = code a, name = name a, wins = 2\<rparr>, \<lparr>code = code b, name = name b, wins = 1\<rparr>]"
    using assms by (simp add: updateLeaderboard_def)
  show ?thesis by (simp only: 1 2 3)
qed

lemma frame_leaderboard_fires:
  assumes "handlerFires rnd g"
  shows "\<exists>w. potentialWinner (snd (framePass rnd g)) = Some w \<and> status w = active \<and>
             leaderboard (frame rnd g) = updateLeaderboard w (leaderboard g)"
proof -
  obtain w where w: "potentialWinner (snd (framePass rnd g)) = Some w" "status w = active"
    using handlerFires_survivor [OF assms] by blast
  then have "leaderboard (frame rnd g) = updateLeaderboard w (leaderboard g)"
    using assms by (simp add: frame_fires onSingleSurvivor_simps)
  with w show ?thesis by blast
qed

lemma initializeGame_leaderboard: "leaderboard (initializeGame rnd sh g) = leaderboard g"
  by (simp add: initializeGame_def setTimeout_def Let_def split: option.splits)

lemma other_events_keep_leaderboard: "e \<noteq> Frame \<Longrightarrow> leaderboard (step rnd e g) = leaderboard g"
  by (cases e)
    (auto simp: elapse_def fireTimer_def runCallback_def initializeGame_leaderboard
      split: option.splits Callback.splits)

text \<open>
  Claim C7. The update yields a list in descending order of wins whose entries are those
  of the previous list with the winner's count raised by one when its code is present,
  and with a new entry of count 1 added otherwise; after wins of A, A and B (of different
  codes) from the empty list it is A with 2 before B with 1. The leaderboard changes
  only in a frame that runs the winner check's body, by one such update, and that
  happens at most once before the next round starts.
\<close>

theorem leaderboard_update:
  "sorted_wrt (\<lambda>a b. wins b \<le> wins a) (updateLeaderboard w prev) \<and>
   ((\<exists>e\<in>set prev. code e = code w) \<longrightarrow>
      mset (updateLeaderboard w prev) =
        mset (map (\<lambda>p. if code p = code w then p\<lparr>wins := wins p + 1\<rparr> else p) prev)) \<and>
   (\<not> (\<exists>e\<in>set prev. code e = code w) \<longrightarrow>
      mset (updateLeaderboard w prev) = mset prev + {#\<lparr>code = code w, name = name w, wins = 1\<rparr>#}) \<and>
   (code a \<noteq> code b \<longrightarrow>
      updateLeaderboard b (updateLeaderboard a (updateLeaderboard a [])) =
        [\<lparr>code = code a, name = name a, wins = 2\<rparr>, \<lparr>code = code b, name = name b, wins = 1\<rparr>]) \<and>
   (handlerFires rnd g \<longrightarrow>
      (\<exists>s. potentialWinner (snd (framePass rnd g)) = Some s \<and> status s = active \<and>
           leaderboard (frame rnd g) = updateLeaderboard s (leaderboard g))) \<and>
   (\<not> handlerFires rnd g \<longrightarrow> leaderboard (frame rnd g) = leaderboard g) \<and>
   (e \<noteq> Frame \<longrightarrow> leaderboard (step rnd e g) = leaderboard g) \<and>
   winsInRound rnd g es \<le> 1"
proof (intro conjI impI)
  show "sorted_wrt (\<lambda>a b. wins b \<le> wins a) (updateLeaderboard w prev)"
    by (rule updateLeaderboard_sorted)
next
  assume "\<exists>e\<in>set prev. code e = code w"
  then show "mset (updateLeaderboard w prev) =
      mset (map (\<lambda>p. if code p = code w then p\<lparr>wins := wins p + 1\<rparr> else p) prev)"
    by (rule updateLeaderboard_existing)
next
  assume "\<not> (\<exists>e\<in>set prev. code e = code w)"
  then show "mset (updateLeaderboard w prev) =
      mset prev + {#\<lparr>code = code w, name = name w, wins = 1\<rparr>#}"
    by (rule updateLeaderboard_new)
next
  assume "code a \<noteq> code b"
  then show "updateLeaderboard b (updateLeaderboard a (updateLeaderboard a [])) =
      [\<lparr>code = code a, name = name a, wins = 2\<rparr>, \<lparr>code = code b, name = name b, wins = 1\<rparr>]"
    by (rule updateLeaderboard_AAB)
next
  assume "handlerFires rnd g"
  then show "\<exists>s. potentialWinner (snd (framePass rnd g)) = Some s \<and> status s = active \<and>
      leaderboard (frame rnd g) = updateLeaderboard s (leaderboard g)"
    by (rule frame_leaderboard_fires)
next
  assume "\<not> handlerFires rnd g"
  then show "leaderboard (frame rnd g) = leaderboard g" by (simp add: frame_quiet)
next
  assume "e \<noteq> Frame"
  then show "leaderboard (step rnd e g) = leaderboard g" by (rule other_events_keep_leaderboard)
next
  show "winsInRound rnd g es \<le> 1" by (rule winsInRound_le_1)
qed

theorem leaderboard_update_witness:
  "code flagA \<noteq> code flagB \<and>
   updateLeaderboard flagB (updateLeaderboard flagA (updateLeaderboard flagA [])) =
     [\<lparr>code = ''us'', name = ''USA'', wins = 2\<rparr>, \<lparr>code = ''gb'', name = ''UK'', wins = 1\<rparr>] \<and>
   handlerFires rndHalf (scatterGame [flagA, flagB_exiting]) \<and>
   leaderboard (frame rndHalf (scatterGame [flagA, flagB_exiting])) =
     [\<lparr>code = ''us'', name = ''USA'', wins = 1\<rparr>] \<and>
   (\<exists>e\<in>set [\<lparr>code = ''us'', name = ''USA'', wins = 1\<rparr>]. code e = code flagA) \<and>
   mset (updateLeaderboard flagA [\<lparr>code = ''us'', name = ''USA'', wins = 1\<rparr>]) =
     {#\<lparr>code = ''us'', name = ''USA'', wins = 2\<rparr>#}"
proof -
  let ?g = "scatterGame [flagA, flagB_exiting]"
  have ne: "code flagA \<noteq> code flagB" by (simp add: flagA_def flagB_def)
  have ex: "\<exists>e\<in>set [\<lparr>code = ''us'', name = ''USA'', wins = 1\<rparr>]. code e = code flagA"
    by (simp add: flagA_def)
  have "updateLeaderboard flagB (updateLeaderboard flagA (updateLeaderboard flagA [])) =
     [\<lparr>code = code flagA, name = name flagA, wins = 2\<rparr>,
      \<lparr>code = code flagB, name = name flagB, wins = 1\<rparr>]"
    using ne leaderboard_update [of flagA "[]" flagA flagB] by blast
  then have aab: "updateLeaderboard flagB (updateLeaderboard flagA (updateLeaderboard flagA [])) =
     [\<lparr>code = ''us'', name = ''USA'', wins = 2\<rparr>, \<lparr>code = ''gb'', name = ''UK'', wins = 1\<rparr>]"
    by (simp add: flagA_def flagB_def)
  have "mset (updateLeaderboard flagA [\<lparr>code = ''us'', name = ''USA'', wins = 1\<rparr>]) =
      mset (map (\<lambda>p. if code p = code flagA then p\<lparr>wins := wins p + 1\<rparr> else p)
              [\<lparr>code = ''us'', name = ''USA'', wins = 1\<rparr>])"
    using ex leaderboard_update [of flagA "[\<lparr>code = ''us'', name = ''USA'', wins = 1\<rparr>]"]
    by blast
  then have inc: "mset (updateLeaderboard flagA [\<lparr>code = ''us'', name = ''USA'', wins = 1\<rparr>]) =
     {#\<lparr>code = ''us'', name = ''USA'', wins = 2\<rparr>#}"
    by (simp add: flagA_def)
  have "\<exists>s. potentialWinner (snd (framePass rndHalf ?g)) = Some s \<and> status s = active \<and>
       leaderboard (frame rndHalf ?g) = updateLeaderboard s (leaderboard ?g)"
    using handlerFires_last leaderboard_update [of flagA "[]" flagA flagB rndHalf ?g] by blast
  then have "leaderboard (frame rndHalf ?g) =
      updateLeaderboard (flagA\<lparr>physics := (physics flagA)\<lparr>x := 1\<rparr>\<rparr>) (leaderboard ?g)"
    by (auto simp: framePass_last)
  then have lb: "leaderboard (frame rndHalf ?g) = [\<lparr>code = ''us'', name = ''USA'', wins = 1\<rparr>]"
    by (simp add: updateLeaderboard_def scatterGame_def initialGame_def flagA_def)
  from ne aab handlerFires_last lb ex inc show ?thesis by blast
qed

section \<open>Starting a round\<close>

lemma initialFlag_position:
  "x (physics (initialFlag n i r1 r2 c)) = INITIAL_RADIUS * cos (2 * pi * real i / real n)"
  "y (physics (initialFlag n i r1 r2 c)) = INITIAL_RADIUS * sin (2 * pi * real i / real n)"
  by (simp_all add: initialFlag_def Let_def mult.commute mult.left_commute)

lemma scaled_unit_norm:
  fixes r c s :: real
  assumes "c\<^sup>2 + s\<^sup>2 = 1"
  shows "r * c * (r * c) + r * s * (r * s) = r * r"
proof -
  have "r * c * (r * c) + r * s * (r * s) = r * r * (c\<^sup>2 + s\<^sup>2)"
    by (simp add: power2_eq_square algebra_simps)
  with assms show ?thesis by simp
qed

lemma initialFlag_dist: "dist_of (physics (initialFlag n i r1 r2 c)) = INITIAL_RADIUS"
proof -
  have "dist_of (physics (initialFlag n i r1 r2 c)) = sqrt (INITIAL_RADIUS * INITIAL_RADIUS)"
    by (simp only: dist_of_def initialFlag_position scaled_unit_norm [OF sin_cos_squared_add2])
  then show ?thesis by (simp add: real_sqrt_abs2 INITIAL_RADIUS_def)
qed

lemma initializeGame_timers:
  "timers (initializeGame rnd sh g) =
     (case startTimeoutRef g of
        Some i \<Rightarrow> if i \<noteq> 0 then filter (\<lambda>t. tid t \<noteq> i) (timers g) else timers g
      | None \<Rightarrow> timers g) @
     [\<lparr>tid = nextTimerId g, due = now g + 2000, callback = StartScatter\<rparr>]"
  by (simp add: initializeGame_def setTimeout_def clearTimeout_def Let_def split: option.splits)

lemma initializeGame_misc:
  "startTimeoutRef (initializeGame rnd sh g) = Some (nextTimerId g)"
  "nextTimerId (initializeGame rnd sh g) = nextTimerId g + 1"
  "now (initializeGame rnd sh g) = now g"
  by (simp_all add: initializeGame_def setTimeout_def Let_def split: option.splits)

lemma find_absent: "\<forall>t\<in>set ts. \<not> P t \<Longrightarrow> find P (ts @ us) = find P us"
  by (induction ts) simp_all

lemma initializeGame_find:
  assumes "\<forall>t\<in>set (timers g). tid t < nextTimerId g"
  shows "find (\<lambda>t. tid t = nextTimerId g \<and> due t \<le> m) (timers (initializeGame rnd sh g)) =
     (if now g + 2000 \<le> m
      then Some \<lparr>tid = nextTimerId g, due = now g + 2000, callback = StartScatter\<rparr>
      else None)"
proof -
  have "\<forall>t\<in>set (case startTimeoutRef g of
        Some i \<Rightarrow> if i \<noteq> 0 then filter (\<lambda>t. tid t \<noteq> i) (timers g) else timers g
      | None \<Rightarrow> timers g). \<not> (tid t = nextTimerId g \<and> due t \<le> m)"
    using assms by (auto split: option.splits)
  then show ?thesis
    by (simp only: initializeGame_timers find_absent) simp
qed

lemma start_timer_waits:
  assumes "\<forall>t\<in>set (timers g). tid t < nextTimerId g" "dt < 2000"
  shows "fireTimer rnd sh' (nextTimerId g) (elapse dt (initializeGame rnd sh g)) =
         elapse dt (initializeGame rnd sh g)"
  using assms initializeGame_find [OF assms(1), of "now g + dt" rnd sh]
  by (simp add: fireTimer_def elapse_def initializeGame_misc)

lemma start_timer_fires:
  assumes "\<forall>t\<in>set (timers g). tid t < nextTimerId g"
  shows "phase (physicsRef (fireTimer rnd sh' (nextTimerId g) (elapse 2000 (initializeGame rnd sh g)))) = scatter"
  using initializeGame_find [OF assms, of "now g + 2000" rnd sh]
  by (simp add: fireTimer_def elapse_def initializeGame_misc runCallback_def)

text \<open>
  Claim C6. After \<open>initializeGame\<close> the gap is \<open>[315, 360)\<close>, 45 degrees wide; the phase is
  formation, the ring angle 0 and running true; participant \<open>i\<close> of the \<open>N\<close> entries of the
  shuffled roster is active at \<open>(95 cos (2 pi i / N), 95 sin (2 pi i / N))\<close>, at distance 95
  from the centre; and a timer with the phase switch as callback is pending, due 2000
  after the call, with its handle in \<open>startTimeoutRef\<close>. When the handles in the queue are
  older than the next handle, that timer does nothing before its time and sets the phase
  to scatter once 2000 have passed.
\<close>

theorem initializeGame_postcondition:
  "g' = initializeGame rnd sh g \<Longrightarrow>
   gapStart (physicsRef g') = 315 \<and> gapEnd (physicsRef g') = 360 \<and>
   gapEnd (physicsRef g') - gapStart (physicsRef g') = 45 \<and>
   phase (physicsRef g') = formation \<and> ringAngle (physicsRef g') = 0 \<and> isRunning (physicsRef g') \<and>
   length (flags (physicsRef g')) = length sh \<and>
   (\<forall>i < length sh.
      code (flags (physicsRef g') ! i) = code (sh ! i) \<and>
      name (flags (physicsRef g') ! i) = name (sh ! i) \<and>
      status (flags (physicsRef g') ! i) = active \<and>
      x (physics (flags (physicsRef g') ! i)) = INITIAL_RADIUS * cos (2 * pi * real i / real (length sh)) \<and>
      y (physics (flags (physicsRef g') ! i)) = INITIAL_RADIUS * sin (2 * pi * real i / real (length sh)) \<and>
      dist_of (physics (flags (physicsRef g') ! i)) = INITIAL_RADIUS) \<and>
   INITIAL_RADIUS = 95 \<and>
   startTimeoutRef g' = Some (nextTimerId g) \<and>
   \<lparr>tid = nextTimerId g, due = now g + 2000, callback = StartScatter\<rparr> \<in> set (timers g') \<and>
   ((\<forall>t\<in>set (timers g). tid t < nextTimerId g) \<longrightarrow>
      (\<forall>dt < 2000. fireTimer rnd sh' (nextTimerId g) (elapse dt g') = elapse dt g') \<and>
      phase (physicsRef (fireTimer rnd sh' (nextTimerId g) (elapse 2000 g'))) = scatter)"
proof -
  assume g': "g' = initializeGame rnd sh g"
  have ref: "gapStart (physicsRef g') = 315 \<and> gapEnd (physicsRef g') = 360 \<and>
      gapEnd (physicsRef g') - gapStart (physicsRef g') = 45 \<and>
      phase (physicsRef g') = formation \<and> ringAngle (physicsRef g') = 0 \<and> isRunning (physicsRef g') \<and>
      length (flags (physicsRef g')) = length sh"
    by (simp add: g' initializeGame_physicsRef)
  have place: "code (flags (physicsRef g') ! i) = code (sh ! i) \<and>
      name (flags (physicsRef g') ! i) = name (sh ! i) \<and>
      status (flags (physicsRef g') ! i) = active \<and>
      x (physics (flags (physicsRef g') ! i)) = INITIAL_RADIUS * cos (2 * pi * real i / real (length sh)) \<and>
      y (physics (flags (physicsRef g') ! i)) = INITIAL_RADIUS * sin (2 * pi * real i / real (length sh)) \<and>
      dist_of (physics (flags (physicsRef g') ! i)) = INITIAL_RADIUS"
    if "i < length sh" for i
    using that
    by (simp add: g' initializeGame_physicsRef initialFlags_nth initialFlag_position initialFlag_dist)
  have timer: "startTimeoutRef g' = Some (nextTimerId g) \<and>
      \<lparr>tid = nextTimerId g, due = now g + 2000, callback = StartScatter\<rparr> \<in> set (timers g')"
    by (simp add: g' initializeGame_misc initializeGame_timers)
  have fire: "(\<forall>dt < 2000. fireTimer rnd sh' (nextTimerId g) (elapse dt g') = elapse dt g') \<and>
      phase (physicsRef (fireTimer rnd sh' (nextTimerId g) (elapse 2000 g'))) = scatter"
    if "\<forall>t\<in>set (timers g). tid t < nextTimerId g"
    using that by (simp add: g' start_timer_waits start_timer_fires)
  from ref place timer fire show ?thesis by (simp add: INITIAL_RADIUS_def)
qed

lemma frame_last_timers:
  "timers (frame rndHalf (scatterGame [flagA, flagB_exiting])) =
     [\<lparr>tid = 2, due = 7000, callback = AutoRestart\<rparr>]"
  "nextTimerId (frame rndHalf (scatterGame [flagA, flagB_exiting])) = 3"
  "now (frame rndHalf (scatterGame [flagA, flagB_exiting])) = 2000"
  "startTimeoutRef (frame rndHalf (scatterGame [flagA, flagB_exiting])) = Some 1"
  by (simp_all add: frame_last onSingleSurvivor_simps) (simp_all add: scatterGame_def initialGame_def)

theorem initializeGame_postcondition_witness:
  "timers (frame rndHalf (scatterGame [flagA, flagB_exiting])) =
     [\<lparr>tid = 2, due = 7000, callback = AutoRestart\<rparr>] \<and>
   nextTimerId (frame rndHalf (scatterGame [flagA, flagB_exiting])) = 3 \<and>
   (1::nat) < length countriesList \<and>
   gapStart (physicsRef (initializeGame rndHalf countriesList (frame rndHalf (scatterGame [flagA, flagB_exiting])))) = 315 \<and>
   phase (physicsRef (initializeGame rndHalf countriesList (frame rndHalf (scatterGame [flagA, flagB_exiting])))) = formation \<and>
   code (flags (physicsRef (initializeGame rndHalf countriesList (frame rndHalf (scatterGame [flagA, flagB_exiting])))) ! 1) = ''gb'' \<and>
   x (physics (flags (physicsRef (initializeGame rndHalf countriesList (frame rndHalf (scatterGame [flagA, flagB_exiting])))) ! 1)) =
     95 * cos (2 * pi * real 1 / real 50) \<and>
   dist_of (physics (flags (physicsRef (initializeGame rndHalf countriesList (frame rndHalf (scatterGame [flagA, flagB_exiting])))) ! 1)) = 95 \<and>
   fireTimer rndHalf countriesList 3
     (elapse 1999 (initializeGame rndHalf countriesList (frame rndHalf (scatterGame [flagA, flagB_exiting])))) =
     elapse 1999 (initializeGame rndHalf countriesList (frame rndHalf (scatterGame [flagA, flagB_exiting]))) \<and>
   phase (physicsRef (fireTimer rndHalf countriesList 3
     (elapse 2000 (initializeGame rndHalf countriesList (frame rndHalf (scatterGame [flagA, flagB_exiting])))))) = scatter"
proof -
  let ?w = "frame rndHalf (scatterGame [flagA, flagB_exiting])"
  let ?g' = "initializeGame rndHalf countriesList ?w"
  have old: "\<forall>t\<in>set (timers ?w). tid t < nextTimerId ?w" by (simp add: frame_last_timers)
  have i: "(1::nat) < length countriesList" by (simp add: countriesList_length)
  have c1: "code (countriesList ! 1) = ''gb''" by (simp add: countriesList_def)
  note post = initializeGame_postcondition [OF refl, of rndHalf countriesList ?w countriesList]
  from post have "gapStart (physicsRef ?g') = 315" "phase (physicsRef ?g') = formation" by blast+
  moreover from post i c1 have "code (flags (physicsRef ?g') ! 1) = ''gb''" by simp
  moreover from post i have
    "x (physics (flags (physicsRef ?g') ! 1)) = INITIAL_RADIUS * cos (2 * pi * real 1 / real (length countriesList))"
    "dist_of (physics (flags (physicsRef ?g') ! 1)) = INITIAL_RADIUS"
    by blast+
  then have "x (physics (flags (physicsRef ?g') ! 1)) = 95 * cos (2 * pi * real 1 / real 50)"
    "dist_of (physics (flags (physicsRef ?g') ! 1)) = 95"
    by (simp_all add: INITIAL_RADIUS_def countriesList_length)
  moreover from post old have
    "\<forall>dt<2000. fireTimer rndHalf countriesList (nextTimerId ?w) (elapse dt ?g') = elapse dt ?g'"
    "phase (physicsRef (fireTimer rndHalf countriesList (nextTimerId ?w) (elapse 2000 ?g'))) = scatter"
    by blast+
  then have "fireTimer rndHalf countriesList 3 (elapse 1999 ?g') = elapse 1999 ?g'"
    "phase (physicsRef (fireTimer rndHalf countriesList 3 (elapse 2000 ?g'))) = scatter"
    by (simp_all add: frame_last_timers)
  ultimately show ?thesis using i by (simp add: frame_last_timers)
qed

section \<open>The restart timer\<close>

lemma initializeGame_phase: "phase (physicsRef (initializeGame rnd sh g)) = formation"
  by (simp add: initializeGame_physicsRef)

lemma forced_round_timers:
  "timers (initializeGame rndHalf countriesList (frame rndHalf (scatterGame [flagA, flagB_exiting]))) =
     [\<lparr>tid = 2, due = 7000, callback = AutoRestart\<rparr>,
      \<lparr>tid = 3, due = 4000, callback = StartScatter\<rparr>]"
  by (simp add: initializeGame_timers frame_last_timers)

lemma forced_round_scatter:
  "run rndHalf [Elapse 2000, Fire 3 countriesList, Elapse 3000]
     (initializeGame rndHalf countriesList (frame rndHalf (scatterGame [flagA, flagB_exiting]))) =
   (initializeGame rndHalf countriesList (frame rndHalf (scatterGame [flagA, flagB_exiting])))
     \<lparr>physicsRef :=
        (physicsRef (initializeGame rndHalf countriesList (frame rndHalf (scatterGame [flagA, flagB_exiting]))))
          \<lparr>phase := scatter\<rparr>,
      timers := [\<lparr>tid = 2, due = 7000, callback = AutoRestart\<rparr>],
      now := 7000\<rparr>"
  by (simp add: elapse_def fireTimer_def runCallback_def clearTimeout_def forced_round_timers
      initializeGame_misc frame_last_timers)

text \<open>
  Claim C2 as stated fails on the code. Right after a win the restart timer (handle 2,
  due at 7000) is pending. \<open>initializeGame\<close> is then called to force a new round: the timer
  is still pending afterwards, because the only handle \<open>initializeGame\<close> clears is the one of
  the phase switch kept in \<open>startTimeoutRef\<close>. The new round reaches the scatter phase; at
  7000 the old timer fires and \<open>initializeGame\<close> runs again on the new round, which is back
  in formation with a new roster order.
\<close>

theorem stale_restart_fires_into_new_round:
  "\<lparr>tid = 2, due = 7000, callback = AutoRestart\<rparr>
     \<in> set (timers (frame rndHalf (scatterGame [flagA, flagB_exiting]))) \<and>
   \<lparr>tid = 2, due = 7000, callback = AutoRestart\<rparr>
     \<in> set (timers (initializeGame rndHalf countriesList
                      (frame rndHalf (scatterGame [flagA, flagB_exiting])))) \<and>
   phase (physicsRef (run rndHalf [Elapse 2000, Fire 3 countriesList, Elapse 3000]
     (initializeGame rndHalf countriesList (frame rndHalf (scatterGame [flagA, flagB_exiting]))))) =
     scatter \<and>
   phase (physicsRef (fireTimer rndHalf (rev countriesList) 2
     (run rndHalf [Elapse 2000, Fire 3 countriesList, Elapse 3000]
       (initializeGame rndHalf countriesList (frame rndHalf (scatterGame [flagA, flagB_exiting])))))) =
     formation \<and>
   map code (flags (physicsRef (fireTimer rndHalf (rev countriesList) 2
     (run rndHalf [Elapse 2000, Fire 3 countriesList, Elapse 3000]
       (initializeGame rndHalf countriesList (frame rndHalf (scatterGame [flagA, flagB_exiting]))))))) =
     rev (map code countriesList)"
  by (simp only: forced_round_scatter)
    (simp add: forced_round_timers frame_last_timers fireTimer_def runCallback_def
      initializeGame_physicsRef initialFlags_codes rev_map)

section \<open>The life of the restart timer\<close>

lemma initializeGame_keeps_others:
  "t \<in> set (timers g) \<Longrightarrow> startTimeoutRef g \<noteq> Some (tid t) \<Longrightarrow>
   t \<in> set (timers (initializeGame rnd sh g))"
  by (auto simp: initializeGame_timers split: option.splits)

lemma pendingRestarts_initializeGame:
  "pendingRestarts g = [] \<Longrightarrow> pendingRestarts (initializeGame rnd sh g) = []"
  by (auto simp: pendingRestarts_def initializeGame_timers filter_empty_conv split: option.splits)

lemma initializeGame_running: "isRunning (physicsRef (initializeGame rnd sh g))"
  by (simp add: initializeGame_physicsRef)

lemma restartInv_mount: "restartInv (initializeGame rnd sh initialGame)"
proof -
  have "pendingRestarts initialGame = []" by (simp add: pendingRestarts_def initialGame_def)
  then show ?thesis by (simp add: restartInv_def pendingRestarts_initializeGame)
qed

lemma restartInv_frame:
  assumes "restartInv g"
  shows "restartInv (frame rnd g)"
proof (cases "handlerFires rnd g")
  case True
  then obtain w where w: "potentialWinner (snd (framePass rnd g)) = Some w"
    using handlerFires_winner by blast
  have "isRunning (physicsRef g)" using True by (rule handlerFires_facts)
  with assms have "pendingRestarts g = []" by (simp add: restartInv_def)
  then have "length (pendingRestarts (frame rnd g)) \<le> 1"
    using True w by (simp add: frame_fires onSingleSurvivor_simps pendingRestarts_def)
  with handlerFires_stops [OF True] show ?thesis by (simp add: restartInv_def)
next
  case False
  then have "timers (frame rnd g) = timers g"
    "isRunning (physicsRef (frame rnd g)) = isRunning (physicsRef g)"
    by (simp_all add: frame_quiet)
  with assms show ?thesis by (simp add: restartInv_def pendingRestarts_def)
qed

lemma restart_fire_clears:
  assumes "restartInv g" "find (\<lambda>t. tid t = i \<and> due t \<le> now g) (timers g) = Some t"
    "callback t = AutoRestart"
  shows "pendingRestarts (clearTimeout i g) = []"
proof -
  from assms(2) have t: "t \<in> set (timers g)" "tid t = i"
    by (auto simp: find_Some_iff in_set_conv_nth)
  with assms(3) have "t \<in> set (pendingRestarts g)" by (simp add: pendingRestarts_def)
  moreover have "length (pendingRestarts g) \<le> 1" using assms(1) by (simp add: restartInv_def)
  ultimately have "pendingRestarts g = [t]"
    by (cases "pendingRestarts g") (auto simp: Suc_le_eq)
  then have "filter (\<lambda>t. tid t \<noteq> i) (pendingRestarts g) = []" using t(2) by simp
  then show ?thesis
    by (simp add: pendingRestarts_def clearTimeout_def conj_commute)
qed

lemma restartInv_clearTimeout: "restartInv g \<Longrightarrow> restartInv (clearTimeout i g)"
proof -
  assume inv: "restartInv g"
  have eq: "pendingRestarts (clearTimeout i g) = filter (\<lambda>t. tid t \<noteq> i) (pendingRestarts g)"
    by (simp add: pendingRestarts_def clearTimeout_def conj_commute)
  have "length (pendingRestarts g) \<le> 1" using inv by (simp add: restartInv_def)
  with length_filter_le [of "\<lambda>t. tid t \<noteq> i" "pendingRestarts g"]
  have "length (filter (\<lambda>t. tid t \<noteq> i) (pendingRestarts g)) \<le> 1" by (rule order_trans)
  with inv show ?thesis by (auto simp: restartInv_def eq)
qed

lemma restartInv_fire:
  assumes "restartInv g"
  shows "restartInv (fireTimer rnd sh i g)"
proof (cases "find (\<lambda>t. tid t = i \<and> due t \<le> now g) (timers g)")
  case None
  with assms show ?thesis by (simp add: fireTimer_def)
next
  case (Some t)
  show ?thesis
  proof (cases "callback t")
    case StartScatter
    have "restartInv (clearTimeout i g)" using assms by (rule restartInv_clearTimeout)
    then have "restartInv ((clearTimeout i g)\<lparr>physicsRef := (physicsRef (clearTimeout i g))\<lparr>phase := scatter\<rparr>\<rparr>)"
      by (simp add: restartInv_def pendingRestarts_def)
    with Some StartScatter show ?thesis by (simp add: fireTimer_def runCallback_def)
  next
    case AutoRestart
    have "pendingRestarts (clearTimeout i g) = []"
      using assms Some AutoRestart by (rule restart_fire_clears)
    then have "pendingRestarts (initializeGame rnd sh (clearTimeout i g)) = []"
      by (rule pendingRestarts_initializeGame)
    with Some AutoRestart show ?thesis by (simp add: fireTimer_def runCallback_def restartInv_def)
  qed
qed

lemma restartInv_step: "\<not> isInit e \<Longrightarrow> restartInv g \<Longrightarrow> restartInv (step rnd e g)"
  by (cases e) (simp_all add: restartInv_frame restartInv_fire, simp add: elapse_def restartInv_def pendingRestarts_def)

lemma restartInv_run: "\<forall>e\<in>set es. \<not> isInit e \<Longrightarrow> restartInv g \<Longrightarrow> restartInv (run rnd es g)"
  by (induction es arbitrary: g) (simp_all add: restartInv_step)

lemma round_start_clean:
  assumes "restartInv g" "startsRound g e" "\<not> isInit e"
  shows "pendingRestarts (step rnd e g) = [] \<and> isRunning (physicsRef (step rnd e g))"
proof (cases e)
  case (Fire i sh)
  with assms(2) obtain t where t: "find (\<lambda>t. tid t = i \<and> due t \<le> now g) (timers g) = Some t"
    "callback t = AutoRestart"
    by (auto simp: startsRound_def split: option.splits)
  have "pendingRestarts (clearTimeout i g) = []" using assms(1) t by (rule restart_fire_clears)
  then have "pendingRestarts (initializeGame rnd sh (clearTimeout i g)) = []"
    by (rule pendingRestarts_initializeGame)
  with Fire t show ?thesis by (simp add: fireTimer_def runCallback_def initializeGame_running)
qed (use assms in \<open>simp_all add: startsRound_def\<close>)

text \<open>
  Claim C2, amended. \<open>initializeGame\<close> removes from the queue the timer whose handle is in
  \<open>startTimeoutRef\<close>, which is the phase switch of the round before, and no other: a pending
  restart stays. The winner check's body queues the restart 5000 ahead and keeps its
  handle nowhere. In the component's own flow, where \<open>initializeGame\<close> is called at mount
  and by the restart timer only, a restart is pending only while the game is stopped and
  never more than one is; when the restart timer fires and starts a round, no restart is
  left pending.
\<close>

theorem restart_timer_lifecycle:
  "timers (initializeGame rnd sh g) =
     (case startTimeoutRef g of
        Some i \<Rightarrow> if i \<noteq> 0 then filter (\<lambda>t. tid t \<noteq> i) (timers g) else timers g
      | None \<Rightarrow> timers g) @
     [\<lparr>tid = nextTimerId g, due = now g + 2000, callback = StartScatter\<rparr>] \<and>
   (t \<in> set (timers g) \<and> startTimeoutRef g \<noteq> Some (tid t) \<longrightarrow>
      t \<in> set (timers (initializeGame rnd sh g))) \<and>
   timers (onSingleSurvivor w g) =
     timers g @ [\<lparr>tid = nextTimerId g, due = now g + 5000, callback = AutoRestart\<rparr>] \<and>
   startTimeoutRef (onSingleSurvivor w g) = startTimeoutRef g \<and>
   ((\<forall>e\<in>set es. \<not> isInit e) \<longrightarrow>
      (isRunning (physicsRef (run rnd es (initializeGame rnd sh0 initialGame))) \<longrightarrow>
         pendingRestarts (run rnd es (initializeGame rnd sh0 initialGame)) = []) \<and>
      length (pendingRestarts (run rnd es (initializeGame rnd sh0 initialGame))) \<le> 1 \<and>
      (startsRound (run rnd es (initializeGame rnd sh0 initialGame)) e \<and> \<not> isInit e \<longrightarrow>
         pendingRestarts (step rnd e (run rnd es (initializeGame rnd sh0 initialGame))) = [] \<and>
         isRunning (physicsRef (step rnd e (run rnd es (initializeGame rnd sh0 initialGame))))))"
proof (intro conjI impI)
  show "timers (initializeGame rnd sh g) =
     (case startTimeoutRef g of
        Some i \<Rightarrow> if i \<noteq> 0 then filter (\<lambda>t. tid t \<noteq> i) (timers g) else timers g
      | None \<Rightarrow> timers g) @
     [\<lparr>tid = nextTimerId g, due = now g + 2000, callback = StartScatter\<rparr>]"
    by (rule initializeGame_timers)
next
  assume "t \<in> set (timers g) \<and> startTimeoutRef g \<noteq> Some (tid t)"
  then show "t \<in> set (timers (initializeGame rnd sh g))"
    by (simp add: initializeGame_keeps_others)
next
  show "timers (onSingleSurvivor w g) =
     timers g @ [\<lparr>tid = nextTimerId g, due = now g + 5000, callback = AutoRestart\<rparr>]"
    by (simp add: onSingleSurvivor_simps)
next
  show "startTimeoutRef (onSingleSurvivor w g) = startTimeoutRef g"
    by (simp add: onSingleSurvivor_simps)
next
  assume "\<forall>e\<in>set es. \<not> isInit e"
    and "isRunning (physicsRef (run rnd es (initializeGame rnd sh0 initialGame)))"
  then show "pendingRestarts (run rnd es (initializeGame rnd sh0 initialGame)) = []"
    using restartInv_run [OF _ restartInv_mount, of es rnd rnd sh0] by (simp add: restartInv_def)
next
  assume "\<forall>e\<in>set es. \<not> isInit e"
  then show "length (pendingRestarts (run rnd es (initializeGame rnd sh0 initialGame))) \<le> 1"
    using restartInv_run [OF _ restartInv_mount, of es rnd rnd sh0] by (simp add: restartInv_def)
next
  assume "\<forall>e\<in>set es. \<not> isInit e"
    and "startsRound (run rnd es (initializeGame rnd sh0 initialGame)) e \<and> \<not> isInit e"
  then show "pendingRestarts (step rnd e (run rnd es (initializeGame rnd sh0 initialGame))) = []"
    using restartInv_run [OF _ restartInv_mount, of es rnd rnd sh0] round_start_clean by blast
next
  assume "\<forall>e\<in>set es. \<not> isInit e"
    and "startsRound (run rnd es (initializeGame rnd sh0 initialGame)) e \<and> \<not> isInit e"
  then show "isRunning (physicsRef (step rnd e (run rnd es (initializeGame rnd sh0 initialGame))))"
    using restartInv_run [OF _ restartInv_mount, of es rnd rnd sh0] round_start_clean by blast
qed

lemma mount_then_scatter_running:
  "isRunning (physicsRef (run rndHalf [Elapse 2000, Fire 1 countriesList]
     (initializeGame rndHalf countriesList initialGame)))"
proof -
  have old: "\<forall>t\<in>set (timers initialGame). tid t < nextTimerId initialGame"
    by (simp add: initialGame_def)
  have n: "nextTimerId initialGame = 1" "now initialGame = 0" by (simp_all add: initialGame_def)
  show ?thesis
    using initializeGame_find [OF old, of 2000 rndHalf countriesList]
    by (simp add: fireTimer_def elapse_def initializeGame_misc n runCallback_def
        initializeGame_physicsRef)
qed

theorem restart_timer_lifecycle_witness:
  "\<lparr>tid = 2, due = 7000, callback = AutoRestart\<rparr>
     \<in> set (timers (frame rndHalf (scatterGame [flagA, flagB_exiting]))) \<and>
   startTimeoutRef (frame rndHalf (scatterGame [flagA, flagB_exiting])) = Some 1 \<and>
   \<lparr>tid = 2, due = 7000, callback = AutoRestart\<rparr>
     \<in> set (timers (initializeGame rndHalf (rev countriesList)
                      (frame rndHalf (scatterGame [flagA, flagB_exiting])))) \<and>
   isRunning (physicsRef (run rndHalf [Elapse 2000, Fire 1 countriesList]
     (initializeGame rndHalf countriesList initialGame))) \<and>
   pendingRestarts (run rndHalf [Elapse 2000, Fire 1 countriesList]
     (initializeGame rndHalf countriesList initialGame)) = []"
proof -
  let ?w = "frame rndHalf (scatterGame [flagA, flagB_exiting])"
  let ?t = "\<lparr>tid = 2, due = 7000, callback = AutoRestart\<rparr>"
  note at_w = restart_timer_lifecycle [of rndHalf "rev countriesList" ?w ?t]
  note at_run = restart_timer_lifecycle [of rndHalf _ _ _ _ "[Elapse 2000, Fire 1 countriesList]"
      countriesList]
  have h: "?t \<in> set (timers ?w) \<and> startTimeoutRef ?w \<noteq> Some (tid ?t)"
    by (simp add: frame_last_timers)
  have kept: "?t \<in> set (timers (initializeGame rndHalf (rev countriesList) ?w))"
    using at_w [THEN conjunct2, THEN conjunct1, rule_format, OF h] .
  have es: "\<forall>e\<in>set [Elapse 2000, Fire 1 countriesList]. \<not> isInit e" by simp
  have none: "pendingRestarts (run rndHalf [Elapse 2000, Fire 1 countriesList]
     (initializeGame rndHalf countriesList initialGame)) = []"
    using at_run [THEN conjunct2, THEN conjunct2, THEN conjunct2, THEN conjunct2, THEN mp,
        OF es, THEN conjunct1, THEN mp, OF mount_then_scatter_running] .
  from h kept mount_then_scatter_running none show ?thesis by (simp add: frame_last_timers)
qed

section \<open>Angle normalisation in double precision\<close>

lemma round_half_even_nonneg: "0 \<le> r \<Longrightarrow> 0 \<le> round_half_even r"
  by (simp add: round_half_even_def Let_def)

lemma round_half_even_le: "r \<le> of_int m \<Longrightarrow> round_half_even r \<le> m"
proof -
  assume r: "r \<le> of_int m"
  then have f: "\<lfloor>r\<rfloor> \<le> m" by (simp add: floor_le_iff)
  show ?thesis
  proof (cases "\<lfloor>r\<rfloor> = m")
    case True
    with r have "r = of_int m" using of_int_floor_le [of r] by simp
    then show ?thesis by (simp add: round_half_even_def Let_def)
  next
    case False
    with f have "\<lfloor>r\<rfloor> + 1 \<le> m" by simp
    with f show ?thesis by (simp add: round_half_even_def Let_def)
  qed
qed

lemma round_half_even_below:
  "0 < c \<Longrightarrow> c < 1 / 2 \<Longrightarrow> round_half_even (of_int m - c) = m"
proof -
  assume c: "0 < c" "c < 1 / 2"
  then have "\<lfloor>of_int m - c\<rfloor> = m - 1" by (simp add: floor_eq_iff)
  with c show ?thesis by (simp add: round_half_even_def Let_def)
qed

lemma fl64_nonneg: "0 \<le> v \<Longrightarrow> 0 \<le> fl64 v"
  by (simp add: fl64_def Let_def round_half_even_nonneg)

lemma fl64_le_360:
  assumes "0 < v" "v < 360"
  shows "fl64 v \<le> 360"
proof -
  define e where "e = \<lfloor>log 2 v\<rfloor>"
  define n where "n = nat (52 - e)"
  have "v < (2::real) powr 9" using assms by simp
  then have "log 2 v < 9" using assms(1) by (simp only: log_less_iff one_less_numeral_iff semiring_norm)
  then have "e < 9" by (simp add: e_def floor_less_iff)
  then have en: "of_int e - 52 = - real n" by (simp add: n_def)
  have u: "(2::real) powr (of_int e - 52) = inverse (2 ^ n)"
    by (simp only: en powr_minus) (simp add: powr_realpow)
  have fl: "fl64 v = inverse (2 ^ n) * of_int (round_half_even (v / inverse (2 ^ n)))"
    using assms(1) by (simp add: fl64_def Let_def e_def [symmetric] u)
  have "v / inverse (2 ^ n) \<le> of_int (360 * 2 ^ n)" using assms by (simp add: divide_inverse)
  then have "round_half_even (v / inverse (2 ^ n)) \<le> 360 * 2 ^ n" by (rule round_half_even_le)
  then have "of_int (round_half_even (v / inverse (2 ^ n))) \<le> (360 * 2 ^ n :: real)"
    by (metis of_int_le_iff of_int_mult of_int_numeral of_int_power)
  then have "inverse (2 ^ n) * of_int (round_half_even (v / inverse (2 ^ n))) \<le>
      inverse (2 ^ n) * (360 * 2 ^ n :: real)"
    by (simp add: mult_left_mono)
  also have "\<dots> = 360" by simp
  finally show ?thesis by (simp only: fl)
qed

lemma js_rem_360_range: "- 360 < js_rem a 360 \<and> js_rem a 360 < 360"
proof (cases "0 \<le> a")
  case True
  then have "js_rem a 360 = normalizeAngle a"
    by (simp add: js_rem_360_nonneg normalizeAngle_floor)
  then show ?thesis using normalizeAngle_lower [of a] normalizeAngle_upper [of a] by simp
next
  case False
  then have a: "a < 0" by simp
  have "a \<le> 360 * of_int \<lceil>a / 360\<rceil>"
    using ceiling_divide_upper [of 360 a] by (simp add: mult.commute)
  moreover have "360 * of_int \<lceil>a / 360\<rceil> - 360 < a"
    using ceiling_divide_lower [of 360 a] by (simp add: algebra_simps)
  ultimately show ?thesis using a by (simp add: js_rem_360_neg)
qed

lemma normalizeAngle_double_alt:
  "normalizeAngle_double a =
     (if js_rem a 360 < 0 then fl64 (normalizeAngle a) else normalizeAngle a)"
  by (simp add: normalizeAngle_double_def normalizeAngle_def Let_def)

lemma normalizeAngle_double_range: "0 \<le> normalizeAngle_double a \<and> normalizeAngle_double a \<le> 360"
proof (cases "js_rem a 360 < 0")
  case True
  have "0 \<le> normalizeAngle a" by (rule normalizeAngle_lower)
  moreover have "normalizeAngle a \<noteq> 0"
    using True js_rem_360_range [of a] by (simp add: normalizeAngle_def Let_def)
  ultimately have "0 < normalizeAngle a" by simp
  then show ?thesis
    using True fl64_le_360 [OF _ normalizeAngle_upper, of a] fl64_nonneg [of "normalizeAngle a"]
    by (simp add: normalizeAngle_double_alt)
next
  case False
  then show ?thesis
    using normalizeAngle_lower [of a] normalizeAngle_upper [of a]
    by (simp add: normalizeAngle_double_alt)
qed

lemma normalizeAngle_double_nonneg_arg:
  "0 \<le> a \<Longrightarrow> normalizeAngle_double a = normalizeAngle a \<and> normalizeAngle_double a < 360"
proof -
  assume "0 \<le> a"
  then have "js_rem a 360 = normalizeAngle a" by (simp add: js_rem_360_nonneg normalizeAngle_floor)
  then have "\<not> js_rem a 360 < 0" using normalizeAngle_lower [of a] by simp
  then show ?thesis using normalizeAngle_upper [of a] by (simp add: normalizeAngle_double_alt)
qed

lemma js_rem_small_neg:
  assumes "0 < c" "c < 360"
  shows "js_rem (- c) 360 = - c"
proof -
  have "\<lceil>- c / 360\<rceil> = 0" using assms by (simp add: ceiling_eq_iff)
  then show ?thesis using assms by (simp add: js_rem_def js_trunc_def)
qed

lemma fl64_rounds_up_to_360:
  assumes "0 < c" "c < 1 / 2 ^ 45"
  shows "fl64 (360 - c) = 360"
proof -
  define p :: real where "p = 2 ^ 44"
  have p: "0 < p" "c * p < 1 / 2" using assms by (simp_all add: p_def)
  have pint: "360 * p = of_int (360 * 2 ^ 44)" by (simp add: p_def)
  have small: "c < 1" using assms by simp
  have pos: "0 < 360 - c" using small by simp
  have "(2::real) powr 8 \<le> 360 - c" using small by simp
  then have lo: "8 \<le> log 2 (360 - c)"
    using pos by (simp only: le_log_iff one_less_numeral_iff semiring_norm)
  have "360 - c < (2::real) powr 9" using assms(1) by simp
  then have hi: "log 2 (360 - c) < 9"
    using pos by (simp only: log_less_iff one_less_numeral_iff semiring_norm)
  have e: "\<lfloor>log 2 (360 - c)\<rfloor> = 8" using lo hi by (simp only: floor_eq_iff) simp
  have u: "(2::real) powr (of_int 8 - 52) = inverse p"
  proof -
    have "(of_int 8 - 52 :: real) = - real 44" by simp
    then show ?thesis by (simp only: powr_minus p_def) (simp add: powr_realpow)
  qed
  have fl: "fl64 (360 - c) = inverse p * of_int (round_half_even ((360 - c) / inverse p))"
    using pos by (simp add: fl64_def Let_def e) (simp only: u [simplified] )
  have "(360 - c) / inverse p = 360 * p - c * p" by (simp add: divide_inverse algebra_simps)
  then have "(360 - c) / inverse p = of_int (360 * 2 ^ 44) - c * p" by (simp only: pint)
  moreover have "0 < c * p" using assms(1) p(1) by simp
  ultimately have "round_half_even ((360 - c) / inverse p) = 360 * 2 ^ 44"
    using p(2) by (simp only: round_half_even_below)
  then have "inverse p * of_int (round_half_even ((360 - c) / inverse p)) = inverse p * (360 * p)"
    by (simp only: pint)
  also have "\<dots> = 360" using p(1) by simp
  finally show ?thesis by (simp only: fl)
qed

lemma normalizeAngle_double_small_neg:
  assumes "0 < c" "c < 1 / 2 ^ 45"
  shows "normalizeAngle_double (- c) = 360"
proof -
  have "c < 360" using assms by simp
  then have "js_rem (- c) 360 = - c" using assms(1) by (simp add: js_rem_small_neg)
  then show ?thesis
    using assms fl64_rounds_up_to_360 [OF assms]
    by (simp add: normalizeAngle_double_def Let_def)
qed

text \<open>
  Claim C8 as stated fails on the code's arithmetic. For the double \<open>-2^-60\<close> the remainder is
  the argument itself, it is negative, and \<open>360 - 2^-60\<close> is nearer to 360 than to the double
  below it, so the sum rounds to 360: the result is not below 360.
\<close>

theorem normalizeAngle_double_reaches_360:
  "normalizeAngle_double (- (1 / 2 ^ 60)) = 360 \<and> \<not> normalizeAngle_double (- (1 / 2 ^ 60)) < 360"
proof -
  have "normalizeAngle_double (- (1 / 2 ^ 60)) = 360"
    by (rule normalizeAngle_double_small_neg) simp_all
  then show ?thesis by simp
qed

lemma normalizeAngle_725: "normalizeAngle 725 = 5"
  using normalizeAngle_shift [of 5 2] by (simp add: normalizeAngle_floor)

text \<open>
  Claim C8, amended. In the code's double arithmetic the result lies in \<open>[0, 360]\<close>; it
  is the exact result, below 360, for every argument that is not negative, and the
  rounded exact result otherwise. In exact arithmetic the result lies in \<open>[0, 360)\<close> and
  does not change when an integer number \<open>k\<close> of full turns is added to the argument.
\<close>

theorem normalizeAngle_double_bounds:
  "0 \<le> normalizeAngle_double a \<and> normalizeAngle_double a \<le> 360 \<and>
   (0 \<le> a \<longrightarrow> normalizeAngle_double a = normalizeAngle a \<and> normalizeAngle_double a < 360) \<and>
   normalizeAngle_double a =
     (if js_rem a 360 < 0 then fl64 (normalizeAngle a) else normalizeAngle a) \<and>
   0 \<le> normalizeAngle a \<and> normalizeAngle a < 360 \<and>
   normalizeAngle (a + 360 * of_int k) = normalizeAngle a"
  using normalizeAngle_double_range [of a] normalizeAngle_double_nonneg_arg [of a]
    normalizeAngle_double_alt [of a] normalizeAngle_lower [of a] normalizeAngle_upper [of a]
    normalizeAngle_shift [of a k]
  by (intro conjI impI) (elim conjE, assumption | simp)+

theorem normalizeAngle_double_bounds_witness:
  "(0::real) \<le> 725 \<and> normalizeAngle_double 725 = 5 \<and> normalizeAngle_double 725 < 360"
proof -
  have h: "(0::real) \<le> 725" by simp
  note at = normalizeAngle_double_bounds [of 725, THEN conjunct2, THEN conjunct2, THEN conjunct1,
      THEN mp, OF h]
  from at have "normalizeAngle_double 725 = 5" by (simp add: normalizeAngle_725)
  with h at show ?thesis by simp
qed

end
